theory Spec2Isabelle
  imports Main "HOL-Library.Monad_Syntax"
begin

section \<open>Python values used by the model\<close>

text \<open>
  The exceptions the modelled code can raise.  \<open>UnsafeNameIndex\<close> stands for a
  bytecode instruction whose operand points past the end of \<open>co_names\<close>: the
  interpreter reads the tuple without a bounds check there, so the run does not
  produce a Python value at all.  \<open>Unsupported\<close> marks Python that lies outside
  the fragment this development models.
\<close>

datatype error =
    SyntaxError
  | TypeError
  | AttributeError
  | NameError
  | ValueError
  | UnsafeNameIndex nat
  | Unsupported

subsection \<open>Ordered dictionaries\<close>

text \<open>
  A Python \<open>dict\<close> keeps its keys in insertion order; storing under a key that is
  already present replaces the value and keeps the key's position.  \<open>dict_unpack\<close>
  is one \<open>**d\<close> inside a dictionary display, \<open>dict_merge a b\<close> is \<open>{**a, **b}\<close>.
\<close>

type_synonym ('k, 'v) odict = "('k \<times> 'v) list"

fun dict_set :: "('k, 'v) odict \<Rightarrow> 'k \<Rightarrow> 'v \<Rightarrow> ('k, 'v) odict" where
  "dict_set [] k v = [(k, v)]"
| "dict_set ((k', v') # d) k v =
     (if k' = k then (k, v) # d else (k', v') # dict_set d k v)"

definition dict_unpack :: "('k, 'v) odict \<Rightarrow> ('k, 'v) odict \<Rightarrow> ('k, 'v) odict" where
  "dict_unpack acc d = foldl (\<lambda>a (k, v). dict_set a k v) acc d"

definition dict_merge :: "('k, 'v) odict \<Rightarrow> ('k, 'v) odict \<Rightarrow> ('k, 'v) odict" where
  "dict_merge a b = dict_unpack (dict_unpack [] a) b"

definition keys :: "('k, 'v) odict \<Rightarrow> 'k list" where
  "keys d = map fst d"

text \<open>The order in which keys are first seen in a sequence (used in statements only).\<close>

definition first_seen :: "'k list \<Rightarrow> 'k list" where
  "first_seen ks = foldl (\<lambda>acc k. if k \<in> set acc then acc else acc @ [k]) [] ks"

section \<open>Classes\<close>

text \<open>
  What the decorator reads and writes of a class: its name, its own namespace
  \<open>vars(cls)\<close>, and the namespaces of the remaining entries of \<open>cls.__mro__\<close>
  (nearest base first, \<open>object\<close> last).  Annotation values are kept as the
  text of the annotation.
\<close>

datatype 'f member =
    Annotations "(string, string) odict"
  | Function 'f
  | UserValue nat
  | NamesTuple "string list"

type_synonym 'f namespace = "string \<rightharpoonup> 'f member"

record 'f klass =
  cls_name :: string
  cls_vars :: "'f namespace"
  cls_bases :: "'f namespace list"

definition cls_mro :: "'f klass \<Rightarrow> 'f namespace list" where
  "cls_mro cls = cls_vars cls # cls_bases cls"

text \<open>
  \<open>getattr(y, '__annotations__', {})\<close>, answered by the namespace of \<open>y\<close>: a class
  without annotations gives the empty mapping.  Unpacking something that is not a
  mapping raises \<open>TypeError\<close>.
\<close>

definition getattr_annotations :: "'f namespace \<Rightarrow> error + (string, string) odict" where
  "getattr_annotations ns =
     (case ns ''__annotations__'' of
        None \<Rightarrow> Inr []
      | Some (Annotations d) \<Rightarrow> Inr d
      | Some _ \<Rightarrow> Inl TypeError)"

text \<open>
  \<open>all_hints\<close>: \<open>reduce(lambda x, y: {**getattr(y, '__annotations__', {}), **x}, cls.__mro__, {})\<close>.
\<close>

fun reduce_hints ::
  "(string, string) odict \<Rightarrow> 'f namespace list \<Rightarrow> error + (string, string) odict" where
  "reduce_hints x [] = Inr x"
| "reduce_hints x (y # ys) =
     (case getattr_annotations y of
        Inl e \<Rightarrow> Inl e
      | Inr a \<Rightarrow> reduce_hints (dict_merge a x) ys)"

definition all_hints :: "'f klass \<Rightarrow> error + (string, string) odict" where
  "all_hints cls = reduce_hints [] (cls_mro cls)"

text \<open>The field names a class declares itself.\<close>

definition declared :: "'f namespace \<Rightarrow> string list" where
  "declared ns = (case getattr_annotations ns of Inl _ \<Rightarrow> [] | Inr a \<Rightarrow> keys a)"

section \<open>Text\<close>

fun join :: "'a list \<Rightarrow> 'a list list \<Rightarrow> 'a list" where
  "join sep [] = []"
| "join sep [x] = x"
| "join sep (x # y # ys) = x @ sep @ join sep (y # ys)"

fun str_nat :: "nat \<Rightarrow> string" where
  "str_nat n = (if n < 10 then [''0123456789'' ! n]
                else str_nat (n div 10) @ [''0123456789'' ! (n mod 10)])"

declare str_nat.simps [simp del]

definition placeholder :: "nat \<Rightarrow> string" where
  "placeholder i = ''_'' @ str_nat i"

definition placeholders :: "nat \<Rightarrow> string list" where
  "placeholders numfields = map placeholder [0..<numfields]"

definition dq :: string where
  "dq = [CHR 0x22]"

definition make_init :: "string list \<Rightarrow> string" where
  "make_init flds =
     ''def __init__(self, '' @ join '','' flds @ ''):\<newline>'' @
     join ''\<newline>'' (map (\<lambda>name. '' self.'' @ name @ '' = '' @ name @ ''\<newline>'') flds)"

definition make_repr :: "string list \<Rightarrow> string" where
  "make_repr flds =
     ''def __repr__(self):\<newline>'' @
     '' return f'' @ dq @ ''{type(self).__name__}('' @
     join '', '' (map (\<lambda>name. ''{self.'' @ name @ ''!r}'') flds) @ '')'' @ dq @ ''\<newline>''"

definition make_eq :: "string list \<Rightarrow> string" where
  "make_eq flds =
     (let selfvals = join '','' (map (\<lambda>name. ''self.'' @ name) flds);
          othervals = join '','' (map (\<lambda>name. ''other.'' @ name) flds)
      in ''def __eq__(self, other):\<newline>'' @
         ''    if self.__class__ is other.__class__:\<newline>'' @
         ''        return ('' @ selfvals @ '',) == ('' @ othervals @ '',)\<newline>'' @
         ''    else:\<newline>'' @
         ''        return NotImplemented\<newline>'' @
         ''    '')"

definition make_iter :: "string list \<Rightarrow> string" where
  "make_iter flds =
     ''def __iter__(self):\<newline>'' @
     join ''\<newline>'' (map (\<lambda>name. ''   yield self.'' @ name) flds)"

definition make_hash :: "string list \<Rightarrow> string" where
  "make_hash flds =
     (let self_tuple = ''('' @ join '','' (map (\<lambda>name. ''self.'' @ name) flds) @ '',)''
      in ''def __hash__(self):\<newline>'' @
         ''    return hash('' @ self_tuple @ '')\<newline>'')"


section \<open>Reading Python source\<close>

subsection \<open>Tokens\<close>

datatype token =
    NAME string
  | FSTRING string
  | LPAR | RPAR | COMMA | COLON | DOT | EQUAL | EQEQUAL
  | ERRORTOKEN char

datatype lexmode = LineStart | Gap | InName string | AfterEq | InFStr string

datatype lexstate = LexState "(nat \<times> token list) list" nat "token list" lexmode

definition ident_start :: "char \<Rightarrow> bool" where
  "ident_start c \<longleftrightarrow>
     c \<in> set ''_abcdefghijklmnopqrstuvwxyzABCDEFGHIJKLMNOPQRSTUVWXYZ''"

definition ident_char :: "char \<Rightarrow> bool" where
  "ident_char c \<longleftrightarrow> ident_start c \<or> c \<in> set ''0123456789''"

definition punct :: "char \<Rightarrow> token" where
  "punct c =
     (if c = CHR ''('' then LPAR else if c = CHR '')'' then RPAR
      else if c = CHR '','' then COMMA else if c = CHR '':'' then COLON
      else if c = CHR ''.'' then DOT else ERRORTOKEN c)"

text \<open>One character read while no token is open.\<close>

fun gap_step :: "lexstate \<Rightarrow> char \<Rightarrow> lexstate" where
  "gap_step (LexState ls k ts m) c =
     (if c = CHR '' '' then LexState ls k ts Gap
      else if c = CHR ''\<newline>'' then LexState (ls @ [(k, ts)]) 0 [] LineStart
      else if ident_start c then LexState ls k ts (InName [c])
      else if c = CHR ''='' then LexState ls k ts AfterEq
      else LexState ls k (ts @ [punct c]) Gap)"

fun lex_step :: "lexstate \<Rightarrow> char \<Rightarrow> lexstate" where
  "lex_step (LexState ls k ts LineStart) c =
     (if c = CHR '' '' then LexState ls (Suc k) ts LineStart
      else if c = CHR ''\<newline>'' then LexState ls 0 ts LineStart
      else gap_step (LexState ls k ts Gap) c)"
| "lex_step (LexState ls k ts Gap) c = gap_step (LexState ls k ts Gap) c"
| "lex_step (LexState ls k ts (InName a)) c =
     (if ident_char c then LexState ls k ts (InName (a @ [c]))
      else if c = CHR 0x22 \<and> a = ''f'' then LexState ls k ts (InFStr [])
      else gap_step (LexState ls k (ts @ [NAME a]) Gap) c)"
| "lex_step (LexState ls k ts AfterEq) c =
     (if c = CHR ''='' then LexState ls k (ts @ [EQEQUAL]) Gap
      else gap_step (LexState ls k (ts @ [EQUAL]) Gap) c)"
| "lex_step (LexState ls k ts (InFStr a)) c =
     (if c = CHR 0x22 then LexState ls k (ts @ [FSTRING a]) Gap
      else if c = CHR ''\<newline>'' then LexState ls k (ts @ [ERRORTOKEN c]) Gap
      else LexState ls k ts (InFStr (a @ [c])))"

fun lex_finish :: "lexstate \<Rightarrow> (nat \<times> token list) list" where
  "lex_finish (LexState ls k ts LineStart) = ls"
| "lex_finish (LexState ls k ts Gap) = ls @ [(k, ts)]"
| "lex_finish (LexState ls k ts (InName a)) = ls @ [(k, ts @ [NAME a])]"
| "lex_finish (LexState ls k ts AfterEq) = ls @ [(k, ts @ [EQUAL])]"
| "lex_finish (LexState ls k ts (InFStr a)) = ls @ [(k, ts @ [ERRORTOKEN (CHR 0x22)])]"

text \<open>The logical lines of a source text: indentation and tokens of every non-blank line.\<close>

definition tokenize :: "string \<Rightarrow> (nat \<times> token list) list" where
  "tokenize src = lex_finish (foldl lex_step (LexState [] 0 [] LineStart) src)"


subsection \<open>Syntax trees\<close>

datatype primary = Name string | Attribute primary string | Call primary "string list"

datatype fpart = Constant string | FormattedValue primary bool

datatype operand = Primary primary | Tuple "primary list" | JoinedStr "fpart list"

datatype cmpop = Is | Eq

datatype expr = Operand operand | Compare operand cmpop operand

datatype simple_stmt = Assign primary string expr | Return expr

datatype stmt = Simple simple_stmt | IfStmt expr "simple_stmt list" "simple_stmt list"

record funcdef =
  fd_name :: string
  fd_params :: "string list"
  fd_body :: "stmt list"

definition kwlist :: "string list" where
  "kwlist = [''False'', ''None'', ''True'', ''and'', ''as'', ''assert'', ''async'',
     ''await'', ''break'', ''class'', ''continue'', ''def'', ''del'', ''elif'', ''else'',
     ''except'', ''finally'', ''for'', ''from'', ''global'', ''if'', ''import'', ''in'',
     ''is'', ''lambda'', ''nonlocal'', ''not'', ''or'', ''pass'', ''raise'', ''return'',
     ''try'', ''while'', ''with'', ''yield'']"

subsection \<open>Expressions\<close>

text \<open>
  The fragment: a name followed by attribute accesses and calls with one name as
  argument; a parenthesised tuple of such primaries; an f-string; and one optional
  comparison by \<open>is\<close> or \<open>==\<close>.  Text that is certainly not Python gives
  \<open>SyntaxError\<close>; Python outside the fragment gives \<open>Unsupported\<close>.
\<close>

fun trailers :: "primary \<Rightarrow> token list \<Rightarrow> error + (primary \<times> token list)" where
  "trailers e [] = Inr (e, [])"
| "trailers e (t # ts) =
     (if t = DOT then
        (case ts of
           NAME a # r \<Rightarrow>
             if a \<in> set kwlist then Inl SyntaxError else trailers (Attribute e a) r
         | _ \<Rightarrow> Inl SyntaxError)
      else if t = LPAR then
        (case ts of
           NAME a # RPAR # r \<Rightarrow>
             if a \<in> set kwlist then Inl Unsupported else trailers (Call e [a]) r
         | _ \<Rightarrow> Inl Unsupported)
      else Inr (e, t # ts))"

definition parse_primary :: "token list \<Rightarrow> error + (primary \<times> token list)" where
  "parse_primary ts =
     (case ts of
        NAME x # r \<Rightarrow> if x \<in> set kwlist then Inl Unsupported else trailers (Name x) r
      | LPAR # r \<Rightarrow> Inl Unsupported
      | FSTRING s # r \<Rightarrow> Inl Unsupported
      | ERRORTOKEN c # r \<Rightarrow> Inl Unsupported
      | _ \<Rightarrow> Inl SyntaxError)"


lemma trailers_length: "trailers e ts = Inr (p, r) \<Longrightarrow> length r \<le> length ts"
proof (induction e ts rule: trailers.induct)
  case (1 e)
  then show ?case by simp
next
  case (2 e t ts)
  then show ?case
    by (fastforce split: if_splits list.splits token.splits)
qed

lemma parse_primary_length: "parse_primary ts = Inr (p, r) \<Longrightarrow> length r < length ts"
  by (auto simp: parse_primary_def split: list.splits token.splits if_splits
      dest: trailers_length)

text \<open>The elements of a tuple display after its first element and comma.\<close>

function tuple_items :: "primary list \<Rightarrow> token list \<Rightarrow> error + (primary list \<times> token list)" where
  "tuple_items acc ts =
     (case ts of
        RPAR # r \<Rightarrow> Inr (acc, r)
      | _ \<Rightarrow>
         (case parse_primary ts of
            Inl e \<Rightarrow> Inl e
          | Inr (p, r) \<Rightarrow>
             (case r of
                COMMA # r' \<Rightarrow> tuple_items (acc @ [p]) r'
              | RPAR # r' \<Rightarrow> Inr (acc @ [p], r')
              | _ \<Rightarrow> Inl SyntaxError)))"
  by pat_completeness auto
termination
  by (relation "measure (\<lambda>(acc, ts). length ts)")
     (auto dest: parse_primary_length)

declare tuple_items.simps [simp del]

text \<open>The replacement field of an f-string: an expression and an optional \<open>!r\<close>.\<close>

definition parse_field :: "string \<Rightarrow> error + fpart" where
  "parse_field text =
     (let e = takeWhile (\<lambda>c. c \<noteq> CHR ''!'') text;
          conv = dropWhile (\<lambda>c. c \<noteq> CHR ''!'') text
      in if conv \<noteq> [] \<and> conv \<noteq> ''!r'' then Inl Unsupported
         else (case tokenize e of
                 [] \<Rightarrow> Inl SyntaxError
               | [(k, ts)] \<Rightarrow>
                   (case parse_primary ts of
                      Inl err \<Rightarrow> Inl err
                    | Inr (p, r) \<Rightarrow>
                        if r = [] then Inr (FormattedValue p (conv = ''!r''))
                        else Inl Unsupported)
               | _ \<Rightarrow> Inl Unsupported))"

definition literal_part :: "string \<Rightarrow> fpart list" where
  "literal_part s = (if s = [] then [] else [Constant s])"

text \<open>
  The body of an f-string, read character by character: the second argument is the
  literal text (\<open>Inl\<close>) or the replacement field (\<open>Inr\<close>) collected so far.
\<close>

fun fstring_parts :: "fpart list \<Rightarrow> string + string \<Rightarrow> string \<Rightarrow> error + fpart list" where
  "fstring_parts ps (Inl lit) [] = Inr (ps @ literal_part lit)"
| "fstring_parts ps (Inr e) [] = Inl SyntaxError"
| "fstring_parts ps (Inl lit) (c # cs) =
     (if c = CHR ''{'' then fstring_parts (ps @ literal_part lit) (Inr []) cs
      else if c = CHR ''}'' \<or> c = CHR 0x5C then Inl Unsupported
      else fstring_parts ps (Inl (lit @ [c])) cs)"
| "fstring_parts ps (Inr e) (c # cs) =
     (if c = CHR ''}'' then
        (case parse_field e of
           Inl err \<Rightarrow> Inl err
         | Inr p \<Rightarrow> fstring_parts (ps @ [p]) (Inl []) cs)
      else if c = CHR ''{'' then Inl Unsupported
      else fstring_parts ps (Inr (e @ [c])) cs)"

definition parse_operand :: "token list \<Rightarrow> error + (operand \<times> token list)" where
  "parse_operand ts =
     (case ts of
        FSTRING s # r \<Rightarrow>
          (case fstring_parts [] (Inl []) s of
             Inl e \<Rightarrow> Inl e
           | Inr ps \<Rightarrow> Inr (JoinedStr ps, r))
      | LPAR # RPAR # r \<Rightarrow> Inr (Tuple [], r)
      | LPAR # r \<Rightarrow>
          (case parse_primary r of
             Inl e \<Rightarrow> Inl e
           | Inr (p, r') \<Rightarrow>
               (case r' of
                  COMMA # r'' \<Rightarrow>
                    (case tuple_items [p] r'' of
                       Inl e \<Rightarrow> Inl e
                     | Inr (ps, r3) \<Rightarrow> Inr (Tuple ps, r3))
                | RPAR # r'' \<Rightarrow> Inr (Primary p, r'')
                | _ \<Rightarrow> Inl SyntaxError))
      | _ \<Rightarrow>
          (case parse_primary ts of
             Inl e \<Rightarrow> Inl e
           | Inr (p, r) \<Rightarrow> Inr (Primary p, r)))"

definition parse_expr :: "token list \<Rightarrow> error + (expr \<times> token list)" where
  "parse_expr ts =
     (case parse_operand ts of
        Inl e \<Rightarrow> Inl e
      | Inr (a, r) \<Rightarrow>
          (case r of
             NAME x # r' \<Rightarrow>
               if x = ''is'' then
                 (case parse_operand r' of
                    Inl e \<Rightarrow> Inl e
                  | Inr (b, r'') \<Rightarrow> Inr (Compare a Is b, r''))
               else Inr (Operand a, r)
           | EQEQUAL # r' \<Rightarrow>
               (case parse_operand r' of
                  Inl e \<Rightarrow> Inl e
                | Inr (b, r'') \<Rightarrow> Inr (Compare a Eq b, r''))
           | _ \<Rightarrow> Inr (Operand a, r)))"


subsection \<open>Statements and the function definition\<close>

definition parse_simple :: "token list \<Rightarrow> error + simple_stmt" where
  "parse_simple ts =
     (case ts of
        NAME x # r \<Rightarrow>
          if x = ''return'' then
            (if r = [] then Inl Unsupported
             else (case parse_expr r of
                     Inl e \<Rightarrow> Inl e
                   | Inr (e, r') \<Rightarrow> if r' = [] then Inr (Return e) else Inl Unsupported))
          else
            (case parse_primary ts of
               Inl e \<Rightarrow> Inl e
             | Inr (Attribute ob a, EQUAL # r') \<Rightarrow>
                 (case parse_expr r' of
                    Inl e \<Rightarrow> Inl e
                  | Inr (e, r'') \<Rightarrow> if r'' = [] then Inr (Assign ob a e) else Inl Unsupported)
             | Inr _ \<Rightarrow> Inl Unsupported)
      | _ \<Rightarrow>
          (case parse_primary ts of
             Inl e \<Rightarrow> Inl e
           | Inr _ \<Rightarrow> Inl Unsupported))"

fun parse_simples :: "token list list \<Rightarrow> error + simple_stmt list" where
  "parse_simples [] = Inr []"
| "parse_simples (ts # tss) =
     (case parse_simple ts of
        Inl e \<Rightarrow> Inl e
      | Inr st \<Rightarrow>
          (case parse_simples tss of
             Inl e \<Rightarrow> Inl e
           | Inr sts \<Rightarrow> Inr (st # sts)))"

text \<open>
  The indented block under \<open>if\<close> or \<open>else\<close>: at least one line, every line at the
  same depth, simple statements only.
\<close>

definition parse_suite :: "(nat \<times> token list) list \<Rightarrow> error + simple_stmt list" where
  "parse_suite ls =
     (case ls of
        [] \<Rightarrow> Inl SyntaxError
      | (j, ts) # rest \<Rightarrow>
          if \<exists>l \<in> set rest. fst l \<noteq> j then Inl SyntaxError
          else parse_simples (map snd ls))"

definition deeper :: "nat \<Rightarrow> nat \<times> token list \<Rightarrow> bool" where
  "deeper k l \<longleftrightarrow> k < fst l"

function parse_body :: "nat \<Rightarrow> (nat \<times> token list) list \<Rightarrow> error + stmt list" where
  "parse_body k [] = Inr []"
| "parse_body k (l # rest) =
     (if fst l < k then Inl Unsupported
      else if k < fst l then Inl SyntaxError
      else if hd (snd l) = NAME ''if'' then
        (case parse_expr (tl (snd l)) of
           Inl e \<Rightarrow> Inl e
         | Inr (cond, r) \<Rightarrow>
             if r \<noteq> [COLON] then Inl Unsupported
             else
               (case parse_suite (takeWhile (deeper k) rest) of
                  Inl e \<Rightarrow> Inl e
                | Inr thn \<Rightarrow>
                    (case dropWhile (deeper k) rest of
                       [] \<Rightarrow> Inr [IfStmt cond thn []]
                     | l' # rest2 \<Rightarrow>
                         if l' = (k, [NAME ''else'', COLON]) then
                           (case parse_suite (takeWhile (deeper k) rest2) of
                              Inl e \<Rightarrow> Inl e
                            | Inr els \<Rightarrow>
                                (case parse_body k (dropWhile (deeper k) rest2) of
                                   Inl e \<Rightarrow> Inl e
                                 | Inr ss \<Rightarrow> Inr (IfStmt cond thn els # ss)))
                         else
                           (case parse_body k (dropWhile (deeper k) rest) of
                              Inl e \<Rightarrow> Inl e
                            | Inr ss \<Rightarrow> Inr (IfStmt cond thn [] # ss)))))
      else
        (case parse_simple (snd l) of
           Inl e \<Rightarrow> Inl e
         | Inr st \<Rightarrow>
             (case parse_body k rest of
                Inl e \<Rightarrow> Inl e
              | Inr ss \<Rightarrow> Inr (Simple st # ss))))"
  by pat_completeness auto
termination
proof (relation "measure (\<lambda>(k, ls). length ls)", goal_cases)
  case 1
  then show ?case by simp
next
  case (2 k l rest x2 cond r thn l' rest2 els)
  have "length (dropWhile (deeper k) rest2) \<le> length rest2"
    by (rule length_dropWhile_le)
  moreover have "length (l' # rest2) \<le> length rest"
    using length_dropWhile_le[of "deeper k" rest] 2 by simp
  ultimately show ?case by simp
next
  case (3 k l rest x2 cond r thn l' rest2)
  show ?case using length_dropWhile_le[of "deeper k" rest] by simp
next
  case (4 k l rest st)
  then show ?case by simp
qed

declare parse_body.simps [simp del]

fun params :: "string list \<Rightarrow> token list \<Rightarrow> error + (string list \<times> token list)" where
  "params acc [] = Inl SyntaxError"
| "params acc (t # ts) =
     (case t of
        RPAR \<Rightarrow> Inr (acc, ts)
      | NAME x \<Rightarrow>
          if x \<in> set kwlist then Inl SyntaxError
          else (case ts of
                  COMMA # r \<Rightarrow> params (acc @ [x]) r
                | RPAR # r \<Rightarrow> Inr (acc @ [x], r)
                | _ \<Rightarrow> Inl Unsupported)
      | COMMA \<Rightarrow> Inl SyntaxError
      | _ \<Rightarrow> Inl Unsupported)"

text \<open>
  A source text holding exactly one \<open>def\<close>.  A \<open>def\<close> line with nothing indented
  under it is rejected, as Python rejects it ("expected an indented block").
\<close>

definition parse_funcdef :: "(nat \<times> token list) list \<Rightarrow> error + funcdef" where
  "parse_funcdef ls =
     (case ls of
        [] \<Rightarrow> Inl Unsupported
      | (i, ts) # body \<Rightarrow>
          if i \<noteq> 0 then Inl SyntaxError
          else
            (case ts of
               NAME d # NAME f # LPAR # ps \<Rightarrow>
                 if d \<noteq> ''def'' then Inl Unsupported
                 else if f \<in> set kwlist then Inl SyntaxError
                 else
                   (case params [] ps of
                      Inl e \<Rightarrow> Inl e
                    | Inr (names, r) \<Rightarrow>
                        if r \<noteq> [COLON] then Inl Unsupported
                        else if \<not> distinct names then Inl SyntaxError
                        else
                          (case body of
                             [] \<Rightarrow> Inl SyntaxError
                           | (k, ts') # rest \<Rightarrow>
                               if k = 0 then Inl SyntaxError
                               else
                                 (case parse_body k body of
                                    Inl e \<Rightarrow> Inl e
                                  | Inr ss \<Rightarrow>
                                      Inr \<lparr>fd_name = f, fd_params = names, fd_body = ss\<rparr>)))
             | _ \<Rightarrow> Inl Unsupported))"


section \<open>Code objects\<close>

text \<open>
  Instructions carry indices into the tables of their code object: \<open>LOAD_FAST\<close> into
  \<open>co_varnames\<close>, \<open>LOAD_GLOBAL\<close>, \<open>LOAD_ATTR\<close> and \<open>STORE_ATTR\<close> into \<open>co_names\<close>,
  \<open>LOAD_CONST\<close> into \<open>co_consts\<close>.  A jump carries the number of instructions it
  skips.
\<close>

datatype instr =
    LOAD_FAST nat
  | LOAD_GLOBAL nat
  | LOAD_ATTR nat
  | STORE_ATTR nat
  | LOAD_CONST nat
  | CALL_FUNCTION nat
  | FORMAT_VALUE bool
  | BUILD_STRING nat
  | BUILD_TUPLE nat
  | IS_OP
  | COMPARE_EQ
  | POP_JUMP_IF_FALSE nat
  | JUMP_FORWARD nat
  | RETURN_VALUE

datatype const = ConstNone | ConstStr string

record code =
  co_argcount :: nat
  co_posonlyargcount :: nat
  co_kwonlyargcount :: nat
  co_nlocals :: nat
  co_stacksize :: nat
  co_flags :: nat
  co_code :: "instr list"
  co_consts :: "const list"
  co_names :: "string list"
  co_varnames :: "string list"
  co_filename :: string
  co_name :: string
  co_firstlineno :: nat
  co_lnotab :: "nat list"
  co_freevars :: "string list"
  co_cellvars :: "string list"

subsection \<open>Compiling a function definition\<close>

text \<open>
  The compiler first emits instructions that still carry names and constants, then
  numbers them: a name or constant gets the index of its first use.
\<close>

datatype sinstr =
    SName string
  | SLoadAttr string
  | SStoreAttr string
  | SConst const
  | SOp instr

fun cg_primary :: "primary \<Rightarrow> sinstr list" where
  "cg_primary (Name x) = [SName x]"
| "cg_primary (Attribute e a) = cg_primary e @ [SLoadAttr a]"
| "cg_primary (Call f args) = cg_primary f @ map SName args @ [SOp (CALL_FUNCTION (length args))]"

fun cg_part :: "fpart \<Rightarrow> sinstr list" where
  "cg_part (Constant s) = [SConst (ConstStr s)]"
| "cg_part (FormattedValue e conv) = cg_primary e @ [SOp (FORMAT_VALUE conv)]"

fun cg_operand :: "operand \<Rightarrow> sinstr list" where
  "cg_operand (Primary p) = cg_primary p"
| "cg_operand (Tuple ps) = concat (map cg_primary ps) @ [SOp (BUILD_TUPLE (length ps))]"
| "cg_operand (JoinedStr parts) =
     concat (map cg_part parts) @
     (if length parts = 1 then [] else [SOp (BUILD_STRING (length parts))])"

fun cg_expr :: "expr \<Rightarrow> sinstr list" where
  "cg_expr (Operand a) = cg_operand a"
| "cg_expr (Compare a Is b) = cg_operand a @ cg_operand b @ [SOp IS_OP]"
| "cg_expr (Compare a Eq b) = cg_operand a @ cg_operand b @ [SOp COMPARE_EQ]"

fun cg_simple :: "simple_stmt \<Rightarrow> sinstr list" where
  "cg_simple (Assign ob a e) = cg_expr e @ cg_primary ob @ [SStoreAttr a]"
| "cg_simple (Return e) = cg_expr e @ [SOp RETURN_VALUE]"

fun cg_stmt :: "stmt \<Rightarrow> sinstr list" where
  "cg_stmt (Simple st) = cg_simple st"
| "cg_stmt (IfStmt c thn els) =
     (let t = concat (map cg_simple thn); e = concat (map cg_simple els)
      in if els = [] then cg_expr c @ [SOp (POP_JUMP_IF_FALSE (length t))] @ t
         else cg_expr c @ [SOp (POP_JUMP_IF_FALSE (Suc (length t)))] @ t @
              [SOp (JUMP_FORWARD (length e))] @ e)"

definition cg_body :: "stmt list \<Rightarrow> sinstr list" where
  "cg_body ss = concat (map cg_stmt ss) @ [SConst ConstNone, SOp RETURN_VALUE]"

fun index_of :: "'a \<Rightarrow> 'a list \<Rightarrow> nat" where
  "index_of x [] = 0"
| "index_of x (y # ys) = (if x = y then 0 else Suc (index_of x ys))"

fun name_refs :: "string list \<Rightarrow> sinstr \<Rightarrow> string list" where
  "name_refs vs (SName x) = (if x \<in> set vs then [] else [x])"
| "name_refs vs (SLoadAttr a) = [a]"
| "name_refs vs (SStoreAttr a) = [a]"
| "name_refs vs (SConst c) = []"
| "name_refs vs (SOp i) = []"

fun const_refs :: "sinstr \<Rightarrow> const list" where
  "const_refs (SConst c) = [c]"
| "const_refs _ = []"

fun resolve :: "string list \<Rightarrow> string list \<Rightarrow> const list \<Rightarrow> sinstr \<Rightarrow> instr" where
  "resolve vs ns cs (SName x) =
     (if x \<in> set vs then LOAD_FAST (index_of x vs) else LOAD_GLOBAL (index_of x ns))"
| "resolve vs ns cs (SLoadAttr a) = LOAD_ATTR (index_of a ns)"
| "resolve vs ns cs (SStoreAttr a) = STORE_ATTR (index_of a ns)"
| "resolve vs ns cs (SConst c) = LOAD_CONST (index_of c cs)"
| "resolve vs ns cs (SOp i) = i"

text \<open>The deepest the value stack gets along the instruction sequence.\<close>

fun stack_effect :: "instr \<Rightarrow> int" where
  "stack_effect (LOAD_FAST i) = 1"
| "stack_effect (LOAD_GLOBAL i) = 1"
| "stack_effect (LOAD_ATTR i) = 0"
| "stack_effect (STORE_ATTR i) = - 2"
| "stack_effect (LOAD_CONST i) = 1"
| "stack_effect (CALL_FUNCTION n) = - int n"
| "stack_effect (FORMAT_VALUE c) = 0"
| "stack_effect (BUILD_STRING n) = 1 - int n"
| "stack_effect (BUILD_TUPLE n) = 1 - int n"
| "stack_effect IS_OP = - 1"
| "stack_effect COMPARE_EQ = - 1"
| "stack_effect (POP_JUMP_IF_FALSE k) = - 1"
| "stack_effect (JUMP_FORWARD k) = 0"
| "stack_effect RETURN_VALUE = - 1"

fun stack_depth :: "int \<Rightarrow> int \<Rightarrow> instr list \<Rightarrow> nat" where
  "stack_depth d m [] = nat m"
| "stack_depth d m (i # is) = stack_depth (d + stack_effect i) (max m (d + stack_effect i)) is"

definition assemble :: "funcdef \<Rightarrow> code" where
  "assemble fd =
     (let vs = fd_params fd;
          sc = cg_body (fd_body fd);
          ns = first_seen (concat (map (name_refs vs) sc));
          cs = first_seen (ConstNone # concat (map const_refs sc));
          is = map (resolve vs ns cs) sc
      in \<lparr>co_argcount = length vs, co_posonlyargcount = 0, co_kwonlyargcount = 0,
          co_nlocals = length vs, co_stacksize = stack_depth 0 0 is, co_flags = 67,
          co_code = is, co_consts = cs, co_names = ns, co_varnames = vs,
          co_filename = ''<string>'', co_name = fd_name fd, co_firstlineno = 1,
          co_lnotab = [], co_freevars = [], co_cellvars = []\<rparr>)"

text \<open>
  \<open>exec(source, globals(), d)\<close> followed by \<open>d.popitem()[1]\<close>, for a source that
  defines one function: the code object of that function.
\<close>

definition exec_def :: "string \<Rightarrow> error + code" where
  "exec_def src =
     (case parse_funcdef (tokenize src) of
        Inl e \<Rightarrow> Inl e
      | Inr fd \<Rightarrow> Inr (assemble fd))"


section \<open>Replacing fields of a code object\<close>

datatype cfield =
    FNat nat
  | FInstrs "instr list"
  | FConsts "const list"
  | FNames "string list"
  | FStr string
  | FBytes "nat list"

definition CODE_FIELD_ORDER :: "string list" where
  "CODE_FIELD_ORDER =
     [''co_argcount'', ''co_posonlyargcount'', ''co_kwonlyargcount'', ''co_nlocals'',
      ''co_stacksize'', ''co_flags'', ''co_code'', ''co_consts'', ''co_names'',
      ''co_varnames'', ''co_filename'', ''co_name'', ''co_firstlineno'', ''co_lnotab'',
      ''co_freevars'', ''co_cellvars'']"

definition code_fields :: "code \<Rightarrow> (string \<times> cfield) list" where
  "code_fields c =
     [(''co_argcount'', FNat (co_argcount c)),
      (''co_posonlyargcount'', FNat (co_posonlyargcount c)),
      (''co_kwonlyargcount'', FNat (co_kwonlyargcount c)),
      (''co_nlocals'', FNat (co_nlocals c)),
      (''co_stacksize'', FNat (co_stacksize c)),
      (''co_flags'', FNat (co_flags c)),
      (''co_code'', FInstrs (co_code c)),
      (''co_consts'', FConsts (co_consts c)),
      (''co_names'', FNames (co_names c)),
      (''co_varnames'', FNames (co_varnames c)),
      (''co_filename'', FStr (co_filename c)),
      (''co_name'', FStr (co_name c)),
      (''co_firstlineno'', FNat (co_firstlineno c)),
      (''co_lnotab'', FBytes (co_lnotab c)),
      (''co_freevars'', FNames (co_freevars c)),
      (''co_cellvars'', FNames (co_cellvars c))]"

text \<open>\<open>getattr(code, name)\<close>.\<close>

definition getattr_code :: "code \<Rightarrow> string \<Rightarrow> error + cfield" where
  "getattr_code c name =
     (case map_of (code_fields c) name of None \<Rightarrow> Inl AttributeError | Some v \<Rightarrow> Inr v)"

fun as_nat :: "cfield \<Rightarrow> nat option" where
  "as_nat (FNat n) = Some n" | "as_nat _ = None"

fun as_instrs :: "cfield \<Rightarrow> instr list option" where
  "as_instrs (FInstrs n) = Some n" | "as_instrs _ = None"

fun as_consts :: "cfield \<Rightarrow> const list option" where
  "as_consts (FConsts n) = Some n" | "as_consts _ = None"

fun as_names :: "cfield \<Rightarrow> string list option" where
  "as_names (FNames n) = Some n" | "as_names _ = None"

fun as_str :: "cfield \<Rightarrow> string option" where
  "as_str (FStr n) = Some n" | "as_str _ = None"

fun as_bytes :: "cfield \<Rightarrow> nat list option" where
  "as_bytes (FBytes n) = Some n" | "as_bytes _ = None"

text \<open>
  The constructor \<open>type(code)(*unpacked)\<close>: sixteen positional arguments of the right
  types, and enough variable names for the arguments.
\<close>

definition code_new :: "cfield list \<Rightarrow> error + code" where
  "code_new u =
     (if length u \<noteq> 16 then Inl TypeError
      else
        (case do {
            a0 \<leftarrow> as_nat (u ! 0); a1 \<leftarrow> as_nat (u ! 1); a2 \<leftarrow> as_nat (u ! 2);
            a3 \<leftarrow> as_nat (u ! 3); a4 \<leftarrow> as_nat (u ! 4); a5 \<leftarrow> as_nat (u ! 5);
            a6 \<leftarrow> as_instrs (u ! 6); a7 \<leftarrow> as_consts (u ! 7); a8 \<leftarrow> as_names (u ! 8);
            a9 \<leftarrow> as_names (u ! 9); a10 \<leftarrow> as_str (u ! 10); a11 \<leftarrow> as_str (u ! 11);
            a12 \<leftarrow> as_nat (u ! 12); a13 \<leftarrow> as_bytes (u ! 13); a14 \<leftarrow> as_names (u ! 14);
            a15 \<leftarrow> as_names (u ! 15);
            Some \<lparr>co_argcount = a0, co_posonlyargcount = a1, co_kwonlyargcount = a2,
                  co_nlocals = a3, co_stacksize = a4, co_flags = a5, co_code = a6,
                  co_consts = a7, co_names = a8, co_varnames = a9, co_filename = a10,
                  co_name = a11, co_firstlineno = a12, co_lnotab = a13,
                  co_freevars = a14, co_cellvars = a15\<rparr> }
         of None \<Rightarrow> Inl TypeError
          | Some c \<Rightarrow>
              if co_argcount c < co_posonlyargcount c then Inl ValueError
              else if length (co_varnames c) < co_argcount c + co_kwonlyargcount c
              then Inl ValueError
              else Inr c))"

text \<open>The loop \<open>for k, v in kwargs.items(): unpacked[_CODE_FIELD_ORDER.index(k)] = v\<close>.\<close>

fun replace_fields :: "cfield list \<Rightarrow> (string \<times> cfield) list \<Rightarrow> error + cfield list" where
  "replace_fields unpacked [] = Inr unpacked"
| "replace_fields unpacked ((k, v) # kwargs) =
     (if k \<in> set CODE_FIELD_ORDER
      then replace_fields (unpacked[index_of k CODE_FIELD_ORDER := v]) kwargs
      else Inl ValueError)"

fun getattrs_code :: "code \<Rightarrow> string list \<Rightarrow> error + cfield list" where
  "getattrs_code c [] = Inr []"
| "getattrs_code c (name # names) =
     (case getattr_code c name of
        Inl e \<Rightarrow> Inl e
      | Inr v \<Rightarrow> (case getattrs_code c names of Inl e \<Rightarrow> Inl e | Inr vs \<Rightarrow> Inr (v # vs)))"

definition code_replace :: "code \<Rightarrow> (string \<times> cfield) list \<Rightarrow> error + code" where
  "code_replace c kwargs =
     (case getattrs_code c CODE_FIELD_ORDER of
        Inl e \<Rightarrow> Inl e
      | Inr unpacked \<Rightarrow>
          (case replace_fields unpacked kwargs of
             Inl e \<Rightarrow> Inl e
           | Inr unpacked' \<Rightarrow> code_new unpacked'))"

section \<open>Function objects and patching\<close>

text \<open>
  A function object: its code and its identity.  All functions of the module share
  the module's globals, which are therefore not stored.
\<close>

record pyfunc =
  fn_code :: code
  fn_ident :: nat

text \<open>
  \<open>type(func)(code, func.__globals__)\<close> makes a new function object; \<open>ident\<close> is the
  identity it receives.  \<open>flds\<close> are the keys of the mapping that the source unpacks
  with \<open>*fields\<close>.
\<close>

definition patch_args_and_attributes :: "pyfunc \<Rightarrow> string list \<Rightarrow> nat \<Rightarrow> nat \<Rightarrow> error + pyfunc" where
  "patch_args_and_attributes func flds start ident =
     (case code_replace (fn_code func)
             [(''co_names'', FNames (take start (co_names (fn_code func)) @ flds)),
              (''co_varnames'', FNames (''self'' # flds))] of
        Inl e \<Rightarrow> Inl e
      | Inr c \<Rightarrow> Inr \<lparr>fn_code = c, fn_ident = ident\<rparr>)"

definition patch_attributes :: "pyfunc \<Rightarrow> string list \<Rightarrow> nat \<Rightarrow> nat \<Rightarrow> error + pyfunc" where
  "patch_attributes func flds start ident =
     (case code_replace (fn_code func)
             [(''co_names'', FNames (take start (co_names (fn_code func)) @ flds))] of
        Inl e \<Rightarrow> Inl e
      | Inr c \<Rightarrow> Inr \<lparr>fn_code = c, fn_ident = ident\<rparr>)"


section \<open>Running code objects\<close>

subsection \<open>Objects\<close>

text \<open>
  Field values are \<open>None\<close>, booleans, integers and tuples of these.  An instance
  is a class and an instance dictionary; classes are taken to be plain (no
  \<open>__slots__\<close>, no attribute hooks, no descriptors among their attributes), so a
  read or write of an ordinary attribute goes to the instance dictionary.
\<close>

datatype prim = PNone | PBool bool | PInt int | PTuple "prim list"

datatype clsref = UserClass nat | BuiltinClass string

datatype obj =
    Val prim
  | Str string
  | Inst nat
  | Class clsref
  | Builtin string
  | NotImplemented

record pyinst =
  inst_class :: nat
  inst_dict :: "string \<rightharpoonup> prim"

record world =
  w_classes :: "pyfunc klass list"
  w_heap :: "pyinst list"

fun repr_prim :: "prim \<Rightarrow> string" where
  "repr_prim PNone = ''None''"
| "repr_prim (PBool b) = (if b then ''True'' else ''False'')"
| "repr_prim (PInt i) = (if i < 0 then ''-'' @ str_nat (nat (- i)) else str_nat (nat i))"
| "repr_prim (PTuple ps) =
     (if length ps = 1 then ''('' @ join '', '' (map repr_prim ps) @ '',)''
      else ''('' @ join '', '' (map repr_prim ps) @ '')'')"

fun num_of :: "prim \<Rightarrow> int option" where
  "num_of (PBool b) = Some (if b then 1 else 0)"
| "num_of (PInt i) = Some i"
| "num_of _ = None"

text \<open>\<open>==\<close> on field values: \<open>True == 1\<close> holds, tuples compare element by element.\<close>

fun prim_eq :: "prim \<Rightarrow> prim \<Rightarrow> bool" and prims_eq :: "prim list \<Rightarrow> prim list \<Rightarrow> bool" where
  "prim_eq (PTuple xs) q = (case q of PTuple ys \<Rightarrow> prims_eq xs ys | _ \<Rightarrow> False)"
| "prim_eq PNone q = (q = PNone)"
| "prim_eq (PBool b) q = (num_of q = Some (if b then 1 else 0))"
| "prim_eq (PInt i) q = (num_of q = Some i)"
| "prims_eq [] ys = (ys = [])"
| "prims_eq (x # xs) ys = (case ys of [] \<Rightarrow> False | y # ys' \<Rightarrow> prim_eq x y \<and> prims_eq xs ys')"

definition lookup_mro :: "'f klass \<Rightarrow> string \<Rightarrow> 'f member option" where
  "lookup_mro cls name = (case filter (\<lambda>ns. ns name \<noteq> None) (cls_mro cls) of
                            [] \<Rightarrow> None | ns # _ \<Rightarrow> ns name)"

definition class_of :: "world \<Rightarrow> obj \<Rightarrow> error + clsref" where
  "class_of w ob =
     (case ob of
        Val PNone \<Rightarrow> Inr (BuiltinClass ''NoneType'')
      | Val (PBool b) \<Rightarrow> Inr (BuiltinClass ''bool'')
      | Val (PInt i) \<Rightarrow> Inr (BuiltinClass ''int'')
      | Val (PTuple ps) \<Rightarrow> Inr (BuiltinClass ''tuple'')
      | Str s \<Rightarrow> Inr (BuiltinClass ''str'')
      | Inst a \<Rightarrow>
          if a < length (w_heap w) then Inr (UserClass (inst_class (w_heap w ! a)))
          else Inl Unsupported
      | Class c \<Rightarrow> Inr (BuiltinClass ''type'')
      | Builtin b \<Rightarrow> Inr (BuiltinClass ''type'')
      | NotImplemented \<Rightarrow> Inr (BuiltinClass ''NotImplementedType''))"

definition class_name :: "world \<Rightarrow> clsref \<Rightarrow> error + string" where
  "class_name w c =
     (case c of
        BuiltinClass n \<Rightarrow> Inr n
      | UserClass i \<Rightarrow>
          if i < length (w_classes w) then Inr (cls_name (w_classes w ! i))
          else Inl Unsupported)"

text \<open>
  \<open>ob.name\<close>.  \<open>__class__\<close> is answered by the type; other names by the instance
  dictionary.  A name that only the class could answer is outside the model.
\<close>

definition getattr_obj :: "world \<Rightarrow> obj \<Rightarrow> string \<Rightarrow> error + obj" where
  "getattr_obj w ob name =
     (if name = ''__class__'' then
        (case class_of w ob of Inl e \<Rightarrow> Inl e | Inr c \<Rightarrow> Inr (Class c))
      else
        (case ob of
           Inst a \<Rightarrow>
             if a < length (w_heap w) then
               (case inst_dict (w_heap w ! a) name of
                  Some v \<Rightarrow> Inr (Val v)
                | None \<Rightarrow>
                    if inst_class (w_heap w ! a) < length (w_classes w)
                       \<and> lookup_mro (w_classes w ! inst_class (w_heap w ! a)) name = None
                    then Inl AttributeError else Inl Unsupported)
             else Inl Unsupported
         | Class c \<Rightarrow>
             if name = ''__name__'' then
               (case class_name w c of Inl e \<Rightarrow> Inl e | Inr n \<Rightarrow> Inr (Str n))
             else Inl Unsupported
         | _ \<Rightarrow> Inl Unsupported))"

text \<open>
  \<open>ob.name = v\<close> on an instance.  \<open>__class__\<close> and \<open>__dict__\<close> accept only a class
  and a dictionary, \<open>__weakref__\<close> is read-only.
\<close>

definition setattr_obj :: "world \<Rightarrow> obj \<Rightarrow> string \<Rightarrow> obj \<Rightarrow> error + world" where
  "setattr_obj w ob name v =
     (case ob of
        Inst a \<Rightarrow>
          if a < length (w_heap w) then
            (case v of
               Val p \<Rightarrow>
                 if name = ''__class__'' \<or> name = ''__dict__'' then Inl TypeError
                 else if name = ''__weakref__'' then Inl AttributeError
                 else Inr (w\<lparr>w_heap := (w_heap w)[a := (w_heap w ! a)
                              \<lparr>inst_dict := (inst_dict (w_heap w ! a))(name \<mapsto> p)\<rparr>]\<rparr>)
             | _ \<Rightarrow> Inl Unsupported)
          else Inl Unsupported
      | _ \<Rightarrow> Inl Unsupported)"

text \<open>
  The names the module's globals and the builtins answer; the generated code
  refers to \<open>type\<close> and \<open>NotImplemented\<close> only.
\<close>

definition load_global :: "string \<Rightarrow> error + obj" where
  "load_global name =
     (if name = ''type'' then Inr (Builtin ''type'')
      else if name = ''NotImplemented'' then Inr NotImplemented
      else Inl Unsupported)"

definition obj_of_const :: "const \<Rightarrow> obj" where
  "obj_of_const c = (case c of ConstNone \<Rightarrow> Val PNone | ConstStr s \<Rightarrow> Str s)"

definition truth :: "obj \<Rightarrow> error + bool" where
  "truth ob =
     (case ob of
        Val PNone \<Rightarrow> Inr False
      | Val (PBool b) \<Rightarrow> Inr b
      | Val (PInt i) \<Rightarrow> Inr (i \<noteq> 0)
      | Val (PTuple ps) \<Rightarrow> Inr (ps \<noteq> [])
      | Str s \<Rightarrow> Inr (s \<noteq> [])
      | _ \<Rightarrow> Inl Unsupported)"

fun the_vals :: "obj list \<Rightarrow> prim list option" where
  "the_vals [] = Some []"
| "the_vals (ob # obs) =
     (case ob of
        Val p \<Rightarrow> (case the_vals obs of None \<Rightarrow> None | Some ps \<Rightarrow> Some (p # ps))
      | _ \<Rightarrow> None)"

fun the_strs :: "obj list \<Rightarrow> string list option" where
  "the_strs [] = Some []"
| "the_strs (ob # obs) =
     (case ob of
        Str s \<Rightarrow> (case the_strs obs of None \<Rightarrow> None | Some ss \<Rightarrow> Some (s # ss))
      | _ \<Rightarrow> None)"

text \<open>\<open>format(v, '')\<close> for \<open>conv = False\<close>, \<open>repr(v)\<close> for \<open>conv = True\<close>.\<close>

definition format_value :: "bool \<Rightarrow> obj \<Rightarrow> error + obj" where
  "format_value conv ob =
     (case ob of
        Val p \<Rightarrow> Inr (Str (repr_prim p))
      | Str s \<Rightarrow> if conv then Inl Unsupported else Inr (Str s)
      | _ \<Rightarrow> Inl Unsupported)"

subsection \<open>The evaluation loop\<close>

datatype flow = Next "obj list" world | Skip nat "obj list" world | Done obj world

definition step :: "code \<Rightarrow> obj list \<Rightarrow> instr \<Rightarrow> obj list \<Rightarrow> world \<Rightarrow> error + flow" where
  "step c locals i stack w =
     (case i of
        LOAD_FAST n \<Rightarrow>
          if n < length locals then Inr (Next (locals ! n # stack) w) else Inl Unsupported
      | LOAD_CONST n \<Rightarrow>
          if n < length (co_consts c)
          then Inr (Next (obj_of_const (co_consts c ! n) # stack) w) else Inl Unsupported
      | LOAD_GLOBAL n \<Rightarrow>
          if n < length (co_names c) then
            (case load_global (co_names c ! n) of
               Inl e \<Rightarrow> Inl e
             | Inr v \<Rightarrow> Inr (Next (v # stack) w))
          else Inl (UnsafeNameIndex n)
      | LOAD_ATTR n \<Rightarrow>
          if n < length (co_names c) then
            (case stack of
               ob # st \<Rightarrow>
                 (case getattr_obj w ob (co_names c ! n) of
                    Inl e \<Rightarrow> Inl e
                  | Inr v \<Rightarrow> Inr (Next (v # st) w))
             | _ \<Rightarrow> Inl Unsupported)
          else Inl (UnsafeNameIndex n)
      | STORE_ATTR n \<Rightarrow>
          if n < length (co_names c) then
            (case stack of
               ob # v # st \<Rightarrow>
                 (case setattr_obj w ob (co_names c ! n) v of
                    Inl e \<Rightarrow> Inl e
                  | Inr w' \<Rightarrow> Inr (Next st w'))
             | _ \<Rightarrow> Inl Unsupported)
          else Inl (UnsafeNameIndex n)
      | CALL_FUNCTION n \<Rightarrow>
          if n < length stack then
            (if stack ! n = Builtin ''type'' \<and> n = 1 then
               (case class_of w (hd stack) of
                  Inl e \<Rightarrow> Inl e
                | Inr cl \<Rightarrow> Inr (Next (Class cl # drop 2 stack) w))
             else Inl Unsupported)
          else Inl Unsupported
      | FORMAT_VALUE conv \<Rightarrow>
          (case stack of
             ob # st \<Rightarrow>
               (case format_value conv ob of
                  Inl e \<Rightarrow> Inl e
                | Inr v \<Rightarrow> Inr (Next (v # st) w))
           | _ \<Rightarrow> Inl Unsupported)
      | BUILD_STRING n \<Rightarrow>
          if n \<le> length stack then
            (case the_strs (rev (take n stack)) of
               None \<Rightarrow> Inl Unsupported
             | Some ss \<Rightarrow> Inr (Next (Str (concat ss) # drop n stack) w))
          else Inl Unsupported
      | BUILD_TUPLE n \<Rightarrow>
          if n \<le> length stack then
            (case the_vals (rev (take n stack)) of
               None \<Rightarrow> Inl Unsupported
             | Some ps \<Rightarrow> Inr (Next (Val (PTuple ps) # drop n stack) w))
          else Inl Unsupported
      | IS_OP \<Rightarrow>
          (case stack of
             Class b # Class a # st \<Rightarrow> Inr (Next (Val (PBool (a = b)) # st) w)
           | Inst b # Inst a # st \<Rightarrow> Inr (Next (Val (PBool (a = b)) # st) w)
           | _ \<Rightarrow> Inl Unsupported)
      | COMPARE_EQ \<Rightarrow>
          (case stack of
             Val q # Val p # st \<Rightarrow> Inr (Next (Val (PBool (prim_eq p q)) # st) w)
           | _ \<Rightarrow> Inl Unsupported)
      | POP_JUMP_IF_FALSE k \<Rightarrow>
          (case stack of
             ob # st \<Rightarrow>
               (case truth ob of
                  Inl e \<Rightarrow> Inl e
                | Inr b \<Rightarrow> if b then Inr (Next st w) else Inr (Skip k st w))
           | _ \<Rightarrow> Inl Unsupported)
      | JUMP_FORWARD k \<Rightarrow> Inr (Skip k stack w)
      | RETURN_VALUE \<Rightarrow>
          (case stack of
             ob # st \<Rightarrow> Inr (Done ob w)
           | _ \<Rightarrow> Inl Unsupported))"

function exec :: "code \<Rightarrow> obj list \<Rightarrow> instr list \<Rightarrow> obj list \<Rightarrow> world \<Rightarrow> error + (obj \<times> world)" where
  "exec c locals [] stack w = Inl Unsupported"
| "exec c locals (i # is) stack w =
     (case step c locals i stack w of
        Inl e \<Rightarrow> Inl e
      | Inr (Next st w') \<Rightarrow> exec c locals is st w'
      | Inr (Skip k st w') \<Rightarrow>
          if k \<le> length is then exec c locals (drop k is) st w' else Inl Unsupported
      | Inr (Done v w') \<Rightarrow> Inr (v, w'))"
  by pat_completeness auto
termination
  by (relation "measure (\<lambda>(c, locals, is, stack, w). length is)") auto


subsection \<open>Calling a function object\<close>

text \<open>
  Positional arguments fill the first slots; a keyword argument goes to the first
  parameter of that name, which must still be empty; no slot may stay empty.
\<close>

fun bind_kwargs :: "string list \<Rightarrow> obj option list \<Rightarrow> (string \<times> obj) list \<Rightarrow> error + obj option list" where
  "bind_kwargs names slots [] = Inr slots"
| "bind_kwargs names slots ((k, v) # kws) =
     (if k \<in> set names then
        (if slots ! index_of k names \<noteq> None then Inl TypeError
         else bind_kwargs names (slots[index_of k names := Some v]) kws)
      else Inl TypeError)"

definition bind_args :: "code \<Rightarrow> obj list \<Rightarrow> (string \<times> obj) list \<Rightarrow> error + obj list" where
  "bind_args c args kwargs =
     (if co_argcount c < length args then Inl TypeError
      else if co_nlocals c \<noteq> co_argcount c \<or> length (co_varnames c) < co_argcount c
      then Inl Unsupported
      else
        (case bind_kwargs (take (co_argcount c) (co_varnames c))
                (map Some args @ replicate (co_argcount c - length args) None) kwargs of
           Inl e \<Rightarrow> Inl e
         | Inr slots \<Rightarrow>
             if None \<in> set slots then Inl TypeError else Inr (map the slots)))"

definition call_function ::
  "world \<Rightarrow> pyfunc \<Rightarrow> obj list \<Rightarrow> (string \<times> obj) list \<Rightarrow> error + (obj \<times> world)" where
  "call_function w f args kwargs =
     (case bind_args (fn_code f) args kwargs of
        Inl e \<Rightarrow> Inl e
      | Inr locals \<Rightarrow> exec (fn_code f) locals (co_code (fn_code f)) [] w)"

subsection \<open>Construction, representation, comparison and hashing\<close>

text \<open>
  \<open>T(*args, **kwargs)\<close> for the class with index \<open>cid\<close>: a fresh instance with an
  empty dictionary is made and handed to \<open>__init__\<close>, which has to return \<open>None\<close>.
\<close>

definition construct ::
  "world \<Rightarrow> nat \<Rightarrow> obj list \<Rightarrow> (string \<times> obj) list \<Rightarrow> error + (obj \<times> world)" where
  "construct w cid args kwargs =
     (if length (w_classes w) \<le> cid then Inl Unsupported
      else
        (let a = length (w_heap w);
             w1 = w\<lparr>w_heap := w_heap w @ [\<lparr>inst_class = cid, inst_dict = Map.empty\<rparr>]\<rparr>
         in case lookup_mro (w_classes w ! cid) ''__init__'' of
              None \<Rightarrow> if args = [] \<and> kwargs = [] then Inr (Inst a, w1) else Inl TypeError
            | Some (Function f) \<Rightarrow>
                (case call_function w1 f (Inst a # args) kwargs of
                   Inl e \<Rightarrow> Inl e
                 | Inr (r, w2) \<Rightarrow> if r = Val PNone then Inr (Inst a, w2) else Inl TypeError)
            | Some _ \<Rightarrow> Inl Unsupported))"

definition method_of :: "world \<Rightarrow> obj \<Rightarrow> string \<Rightarrow> error + pyfunc member option" where
  "method_of w ob name =
     (case ob of
        Inst a \<Rightarrow>
          if a < length (w_heap w) \<and> inst_class (w_heap w ! a) < length (w_classes w)
          then Inr (lookup_mro (w_classes w ! inst_class (w_heap w ! a)) name)
          else Inl Unsupported
      | _ \<Rightarrow> Inl Unsupported)"

text \<open>\<open>repr(ob)\<close>.\<close>

definition py_repr :: "world \<Rightarrow> obj \<Rightarrow> error + string" where
  "py_repr w ob =
     (case ob of
        Val p \<Rightarrow> Inr (repr_prim p)
      | Inst a \<Rightarrow>
          (case method_of w ob ''__repr__'' of
             Inl e \<Rightarrow> Inl e
           | Inr (Some (Function f)) \<Rightarrow>
               (case call_function w f [ob] [] of
                  Inl e \<Rightarrow> Inl e
                | Inr (Str s, w') \<Rightarrow> Inr s
                | Inr _ \<Rightarrow> Inl TypeError)
           | Inr _ \<Rightarrow> Inl Unsupported)
      | _ \<Rightarrow> Inl Unsupported)"

text \<open>
  \<open>type(a).__eq__(a, b)\<close>.  The builtin types decline an operand that is not of
  their kind; \<open>object.__eq__\<close> compares identities.
\<close>

definition call_eq :: "world \<Rightarrow> obj \<Rightarrow> obj \<Rightarrow> error + obj" where
  "call_eq w a b =
     (case a of
        Val p \<Rightarrow> (case b of Val q \<Rightarrow> Inr (Val (PBool (prim_eq p q))) | _ \<Rightarrow> Inr NotImplemented)
      | Str s \<Rightarrow> (case b of Str t \<Rightarrow> Inr (Val (PBool (s = t))) | _ \<Rightarrow> Inr NotImplemented)
      | Inst i \<Rightarrow>
          (case method_of w a ''__eq__'' of
             Inl e \<Rightarrow> Inl e
           | Inr None \<Rightarrow> Inr (if a = b then Val (PBool True) else NotImplemented)
           | Inr (Some (Function f)) \<Rightarrow>
               (case call_function w f [a, b] [] of
                  Inl e \<Rightarrow> Inl e
                | Inr (r, w') \<Rightarrow> Inr r)
           | Inr _ \<Rightarrow> Inl Unsupported)
      | _ \<Rightarrow> Inl Unsupported)"

text \<open>
  The operator \<open>a == b\<close>: the left operand's method, then the right operand's, then
  identity.  (Two instances of different user classes are outside the model: one
  class may derive from the other, which changes the order.)
\<close>

definition py_eq :: "world \<Rightarrow> obj \<Rightarrow> obj \<Rightarrow> error + bool" where
  "py_eq w a b =
     (case (class_of w a, class_of w b) of
        (Inr (UserClass i), Inr (UserClass j)) \<Rightarrow>
          if i \<noteq> j then Inl Unsupported
          else (case call_eq w a b of
                  Inl e \<Rightarrow> Inl e
                | Inr r \<Rightarrow> if r = NotImplemented then Inr (a = b) else truth r)
      | (Inr ca, Inr cb) \<Rightarrow>
          (case call_eq w a b of
             Inl e \<Rightarrow> Inl e
           | Inr r \<Rightarrow>
               if r \<noteq> NotImplemented then truth r
               else (case call_eq w b a of
                       Inl e \<Rightarrow> Inl e
                     | Inr r' \<Rightarrow> if r' = NotImplemented then Inr (a = b) else truth r'))
      | _ \<Rightarrow> Inl Unsupported)"

text \<open>
  \<open>hash(ob)\<close> for an instance: unless a class of the chain binds \<open>__hash__\<close>, the
  hash of \<open>object\<close> applies, which is a function of the object's identity.
\<close>

definition py_hash :: "world \<Rightarrow> obj \<Rightarrow> error + nat" where
  "py_hash w ob =
     (case ob of
        Inst a \<Rightarrow>
          (case method_of w ob ''__hash__'' of
             Inl e \<Rightarrow> Inl e
           | Inr None \<Rightarrow> Inr a
           | Inr _ \<Rightarrow> Inl Unsupported)
      | _ \<Rightarrow> Inl Unsupported)"

section \<open>The template cache\<close>

datatype family = Init | Repr | Eq | Iter | Hash

text \<open>
  The state of the module: one cache per decorated generator (most recently used
  entry first), the number of times \<open>exec\<close> has run, and the number of function
  objects made so far, which gives the next object its identity.
\<close>

record modstate =
  caches :: "family \<Rightarrow> (nat \<times> pyfunc) list"
  execs :: nat
  next_ident :: nat

definition lru_maxsize :: nat where
  "lru_maxsize = 128"

text \<open>
  \<open>codegen(func)\<close> is \<open>make_func_code\<close> under \<open>lru_cache()\<close>, whose \<open>maxsize\<close> is 128:
  a hit moves the entry to the front; a miss runs the body and, when it returns,
  stores the result at the front, dropping the least recently used entry of a full
  cache.  An exception leaves the cache as it is.
\<close>

definition codegen ::
  "family \<Rightarrow> (string list \<Rightarrow> string) \<Rightarrow> nat \<Rightarrow> modstate \<Rightarrow> (error + pyfunc) \<times> modstate" where
  "codegen fam func numfields st =
     (case map_of (caches st fam) numfields of
        Some f \<Rightarrow>
          (Inr f, st\<lparr>caches := (caches st)(fam :=
                     (numfields, f) # filter (\<lambda>e. fst e \<noteq> numfields) (caches st fam))\<rparr>)
      | None \<Rightarrow>
          (case exec_def (func (placeholders numfields)) of
             Inl e \<Rightarrow> (Inl e, st\<lparr>execs := Suc (execs st)\<rparr>)
           | Inr c \<Rightarrow>
               (let f = \<lparr>fn_code = c, fn_ident = next_ident st\<rparr>;
                    old = (if lru_maxsize \<le> length (caches st fam)
                           then butlast (caches st fam) else caches st fam)
                in (Inr f, st\<lparr>caches := (caches st)(fam := (numfields, f) # old),
                              execs := Suc (execs st),
                              next_ident := Suc (next_ident st)\<rparr>))))"

definition init_state :: modstate where
  "init_state = \<lparr>caches = (\<lambda>fam. []), execs = 0, next_ident = 0\<rparr>"

section \<open>The decorator\<close>

text \<open>
  One line \<open>if not name in clsdict: cls.name = patch(make(nfields), fields, start)\<close>.
  The result is the exception raised, if any, the class as it stands then, and the
  module state.
\<close>

definition attach ::
  "string \<Rightarrow> (nat \<Rightarrow> modstate \<Rightarrow> (error + pyfunc) \<times> modstate) \<Rightarrow>
   (pyfunc \<Rightarrow> nat \<Rightarrow> error + pyfunc) \<Rightarrow> nat \<Rightarrow>
   error option \<times> pyfunc klass \<times> modstate \<Rightarrow> error option \<times> pyfunc klass \<times> modstate" where
  "attach name mk patch nfields r =
     (case r of
        (Some e, cls, st) \<Rightarrow> (Some e, cls, st)
      | (None, cls, st) \<Rightarrow>
          if name \<in> dom (cls_vars cls) then (None, cls, st)
          else
            (case mk nfields st of
               (Inl e, st') \<Rightarrow> (Some e, cls, st')
             | (Inr func, st') \<Rightarrow>
                 (case patch func (next_ident st') of
                    Inl e \<Rightarrow> (Some e, cls, st')
                  | Inr f \<Rightarrow>
                      (None, cls\<lparr>cls_vars := (cls_vars cls)(name \<mapsto> Function f)\<rparr>,
                       st'\<lparr>next_ident := Suc (next_ident st')\<rparr>))))"

definition dataklass :: "pyfunc klass \<Rightarrow> modstate \<Rightarrow> error option \<times> pyfunc klass \<times> modstate" where
  "dataklass cls st =
     (case all_hints cls of
        Inl e \<Rightarrow> (Some e, cls, st)
      | Inr flds \<Rightarrow>
          (let nfields = length flds;
               r1 = attach ''__init__'' (codegen Init make_init)
                      (\<lambda>f. patch_args_and_attributes f (keys flds) 0) nfields (None, cls, st);
               r2 = attach ''__repr__'' (codegen Repr make_repr)
                      (\<lambda>f. patch_attributes f (keys flds) 2) nfields r1;
               r3 = attach ''__eq__'' (codegen Eq make_eq)
                      (\<lambda>f. patch_attributes f (keys flds) 1) nfields r2
           in case r3 of
                (Some e, cls', st') \<Rightarrow> (Some e, cls', st')
              | (None, cls', st') \<Rightarrow>
                  (None, cls'\<lparr>cls_vars := (cls_vars cls')(''__match_args__'' \<mapsto> NamesTuple (keys flds))\<rparr>,
                   st')))"

definition Coordinates :: "pyfunc klass" where
  "Coordinates = \<lparr>cls_name = ''Coordinates'',
      cls_vars = [''__annotations__'' \<mapsto> Annotations [(''x'', ''int''), (''y'', ''int'')]],
      cls_bases = [Map.empty]\<rparr>"

definition Empty :: "pyfunc klass" where
  "Empty = \<lparr>cls_name = ''Empty'', cls_vars = Map.empty, cls_bases = [Map.empty]\<rparr>"

definition decorated :: "pyfunc klass \<Rightarrow> pyfunc klass" where
  "decorated cls = fst (snd (dataklass cls init_state))"

definition world_of :: "pyfunc klass \<Rightarrow> world" where
  "world_of cls = \<lparr>w_classes = [cls], w_heap = []\<rparr>"

section \<open>Field resolution\<close>

definition see :: "'k list \<Rightarrow> 'k \<Rightarrow> 'k list" where
  "see acc k = (if k \<in> set acc then acc else acc @ [k])"

lemma first_seen_see: "first_seen ks = foldl see [] ks"
  by (simp add: first_seen_def see_def[abs_def])

lemma foldl_see: "foldl see acc ks = acc @ filter (\<lambda>k. k \<notin> set acc) (foldl see [] ks)"
proof (induction ks arbitrary: acc rule: rev_induct)
  case Nil
  then show ?case by simp
next
  case (snoc x xs)
  show ?case
    using snoc[of acc] by (auto simp: see_def)
qed

lemma set_foldl_see: "set (foldl see acc ks) = set acc \<union> set ks"
  by (induction ks arbitrary: acc) (auto simp: see_def)

lemma distinct_foldl_see: "distinct acc \<Longrightarrow> distinct (foldl see acc ks)"
  by (induction ks arbitrary: acc) (auto simp: see_def)

lemma keys_dict_set: "keys (dict_set d k v) = see (keys d) k"
  by (induction d) (force simp: keys_def see_def)+

lemma keys_dict_unpack: "keys (dict_unpack acc d) = foldl see (keys acc) (keys d)"
proof (induction d arbitrary: acc)
  case Nil
  then show ?case by (simp add: dict_unpack_def keys_def)
next
  case (Cons p d)
  obtain k v where p: "p = (k, v)" by (cases p)
  have "dict_unpack acc (p # d) = dict_unpack (dict_set acc k v) d"
    by (simp add: dict_unpack_def p)
  moreover have "keys (p # d) = k # keys d" by (simp add: keys_def p)
  ultimately show ?case using Cons[of "dict_set acc k v"] by (simp add: keys_dict_set)
qed

lemma keys_dict_merge: "keys (dict_merge a b) = first_seen (keys a @ keys b)"
  by (simp add: dict_merge_def keys_dict_unpack first_seen_see) (simp add: keys_def)

lemma first_seen_append: "first_seen (u @ v) = first_seen u @ filter (\<lambda>k. k \<notin> set u) (first_seen v)"
  using foldl_see[of "foldl see [] u" v] by (simp add: first_seen_see set_foldl_see)

lemma first_seen_distinct: "distinct (first_seen u)"
  by (simp add: first_seen_see distinct_foldl_see)

lemma set_first_seen: "set (first_seen u) = set u"
  by (simp add: first_seen_see set_foldl_see)

lemma first_seen_id: "distinct u \<Longrightarrow> first_seen u = u"
  by (induction u rule: rev_induct) (auto simp: first_seen_see see_def)

lemma first_seen_idem_append: "first_seen (u @ first_seen v) = first_seen (u @ v)"
  by (simp add: first_seen_append first_seen_id first_seen_distinct)

lemma keys_reduce_hints:
  "reduce_hints x ys = Inr d \<Longrightarrow> distinct (keys x) \<Longrightarrow>
   keys d = first_seen (concat (map declared (rev ys)) @ keys x)"
proof (induction ys arbitrary: x)
  case Nil
  then show ?case by (simp add: first_seen_id)
next
  case (Cons y ys)
  from Cons.prems obtain a where a: "getattr_annotations y = Inr a"
    and r: "reduce_hints (dict_merge a x) ys = Inr d"
    by (auto split: sum.splits)
  have "keys d = first_seen (concat (map declared (rev ys)) @ keys (dict_merge a x))"
    using Cons.IH[OF r] by (simp add: keys_dict_merge first_seen_distinct)
  moreover have "declared y = keys a" by (simp add: declared_def a)
  ultimately show ?case
    by (simp add: keys_dict_merge first_seen_idem_append)
qed


lemma map_of_dict_set: "map_of (dict_set d k v) = (map_of d)(k \<mapsto> v)"
  by (induction d) (auto simp: fun_eq_iff)

lemma map_of_dict_unpack: "map_of (dict_unpack acc d) = map_of acc ++ map_of (rev d)"
proof (induction d arbitrary: acc)
  case Nil
  then show ?case by (simp add: dict_unpack_def)
next
  case (Cons p d)
  obtain k v where p: "p = (k, v)" by (cases p)
  have "dict_unpack acc (p # d) = dict_unpack (dict_set acc k v) d"
    by (simp add: dict_unpack_def p)
  then show ?case
    using Cons[of "dict_set acc k v"] by (simp add: map_of_dict_set p map_add_def fun_eq_iff split: option.splits)
qed

lemma map_of_rev_distinct: "distinct (map fst xs) \<Longrightarrow> map_of (rev xs) = map_of xs"
proof (induction xs)
  case Nil
  then show ?case by simp
next
  case (Cons p xs)
  obtain k v where p: "p = (k, v)" by (cases p)
  have "k \<notin> dom (map_of xs)" using Cons.prems by (simp add: p dom_map_of_conv_image_fst)
  then have "map_of xs k = None" by blast
  then show ?case using Cons by (auto simp: p map_add_def fun_eq_iff split: option.splits)
qed

lemma map_of_dict_merge_right:
  assumes "distinct (keys x)" "k \<in> set (keys x)"
  shows "map_of (dict_merge a x) k = map_of x k"
proof -
  have "map_of (rev x) = map_of x"
    using assms(1) by (simp add: keys_def map_of_rev_distinct)
  moreover have "map_of x k \<noteq> None"
    using assms(2) by (simp add: keys_def map_of_eq_None_iff)
  ultimately show ?thesis
    by (auto simp: dict_merge_def map_of_dict_unpack map_add_def split: option.splits)
qed

lemma map_of_reduce_hints:
  "reduce_hints x ys = Inr d \<Longrightarrow> distinct (keys x) \<Longrightarrow> k \<in> set (keys x) \<Longrightarrow>
   map_of d k = map_of x k"
proof (induction ys arbitrary: x)
  case Nil
  then show ?case by simp
next
  case (Cons y ys)
  from Cons.prems obtain a where a: "getattr_annotations y = Inr a"
    and r: "reduce_hints (dict_merge a x) ys = Inr d"
    by (auto split: sum.splits)
  have kx: "k \<in> set (keys (dict_merge a x))"
    using Cons.prems(3) by (simp add: keys_dict_merge set_first_seen)
  have dx: "distinct (keys (dict_merge a x))"
    by (simp add: keys_dict_merge first_seen_distinct)
  show ?case
    using Cons.IH[OF r dx kx] map_of_dict_merge_right[OF Cons.prems(2,3)] by simp
qed

lemma reduce_hints_tail_ok:
  "reduce_hints x ys = Inr d \<Longrightarrow> \<exists>d'. reduce_hints x' ys = Inr d'"
  by (induction ys arbitrary: x x') (auto split: sum.splits)

text \<open>
  Claim C5.  When the field resolution of a class returns a mapping, its keys are
  free of duplicates and are the field names in the order in which they are first
  seen when the chain is walked from the most-base class to the class itself.  So
  the keys resolved for the base chain alone form a prefix, followed by the fields
  that only the class itself declares, and for a field the class declares itself
  the mapping holds the class's own annotation.
\<close>

theorem all_hints_field_order:
  assumes "all_hints cls = Inr d"
  shows "distinct (keys d)
       \<and> keys d = first_seen (concat (map declared (rev (cls_mro cls))))
       \<and> (\<exists>b. reduce_hints [] (cls_bases cls) = Inr b
              \<and> keys d = keys b @ filter (\<lambda>k. k \<notin> set (keys b)) (first_seen (declared (cls_vars cls))))
       \<and> (\<forall>a. getattr_annotations (cls_vars cls) = Inr a \<longrightarrow>
              (\<forall>k \<in> set (keys a). map_of d k = map_of (rev a) k))"
proof -
  have r: "reduce_hints [] (cls_mro cls) = Inr d"
    using assms by (simp add: all_hints_def)
  have k: "keys d = first_seen (concat (map declared (rev (cls_mro cls))))"
    using keys_reduce_hints[OF r] by (simp add: keys_def)
  have d: "distinct (keys d)"
    by (simp add: k first_seen_distinct)
  from r obtain a where a: "getattr_annotations (cls_vars cls) = Inr a"
    and ra: "reduce_hints (dict_merge a []) (cls_bases cls) = Inr d"
    by (auto simp: cls_mro_def split: sum.splits)
  obtain b where b: "reduce_hints [] (cls_bases cls) = Inr b"
    using reduce_hints_tail_ok[OF ra] by blast
  have kb: "keys b = first_seen (concat (map declared (rev (cls_bases cls))))"
    using keys_reduce_hints[OF b] by (simp add: keys_def)
  have p: "keys d = keys b @ filter (\<lambda>k. k \<notin> set (keys b)) (first_seen (declared (cls_vars cls)))"
    by (simp add: k kb cls_mro_def first_seen_append set_first_seen)
  have v: "map_of d k = map_of (rev a) k" if "k \<in> set (keys a)" for k
  proof -
    have "distinct (keys (dict_merge a []))"
      by (simp add: keys_dict_merge first_seen_distinct)
    moreover have "k \<in> set (keys (dict_merge a []))"
      using that by (simp add: keys_dict_merge set_first_seen)
    ultimately have "map_of d k = map_of (dict_merge a []) k"
      using map_of_reduce_hints[OF ra] by blast
    then show ?thesis
      by (simp add: dict_merge_def map_of_dict_unpack)
  qed
  show ?thesis using d k b p a v by auto
qed

definition ex_base :: "unit namespace" where
  "ex_base = [''__annotations__'' \<mapsto> Annotations [(''x'', ''int''), (''z'', ''int'')]]"

definition ex_derived :: "unit klass" where
  "ex_derived = \<lparr>cls_name = ''D'',
      cls_vars = [''__annotations__'' \<mapsto> Annotations [(''y'', ''int''), (''x'', ''str'')]],
      cls_bases = [ex_base, Map.empty]\<rparr>"

lemma ex_derived_hints:
  "all_hints ex_derived = Inr [(''x'', ''str''), (''z'', ''int''), (''y'', ''int'')]"
  by (simp add: all_hints_def cls_mro_def ex_derived_def ex_base_def getattr_annotations_def
      dict_merge_def dict_unpack_def)

theorem all_hints_field_order_witness:
  "all_hints ex_derived = Inr [(''x'', ''str''), (''z'', ''int''), (''y'', ''int'')]
   \<and> keys [(''x'', ''str''), (''z'', ''int''), (''y'', ''int'')]
       = first_seen (concat (map declared (rev (cls_mro ex_derived))))"
  using all_hints_field_order[OF ex_derived_hints] ex_derived_hints by simp


section \<open>Placeholder names\<close>

lemma digit_nth: "d < 10 \<Longrightarrow> ''0123456789'' ! d \<in> set ''0123456789''"
  by (rule nth_mem) simp

lemma str_nat_digits: "set (str_nat n) \<subseteq> set ''0123456789''"
proof (induction n rule: str_nat.induct)
  case (1 n)
  show ?case
  proof (cases "n < 10")
    case True
    then show ?thesis using digit_nth[of n] by (subst str_nat.simps) simp
  next
    case False
    have "''0123456789'' ! (n mod 10) \<in> set ''0123456789''"
      by (rule digit_nth) simp
    then show ?thesis using 1 False by (subst str_nat.simps) simp
  qed
qed

lemma str_nat_nonempty: "str_nat n \<noteq> []"
  by (subst str_nat.simps) simp

lemma digits_distinct: "distinct ''0123456789''"
  by simp

lemma digit_inj: "a < 10 \<Longrightarrow> b < 10 \<Longrightarrow> ''0123456789'' ! a = ''0123456789'' ! b \<Longrightarrow> a = b"
  using nth_eq_iff_index_eq[OF digits_distinct, of a b] by simp

lemma str_nat_inj: "str_nat m = str_nat n \<Longrightarrow> m = n"
proof (induction m arbitrary: n rule: str_nat.induct)
  case (1 m)
  show ?case
  proof (cases "m < 10")
    case True
    then have sm: "str_nat m = [''0123456789'' ! m]" by (subst str_nat.simps) simp
    show ?thesis
    proof (cases "n < 10")
      case n: True
      then have "str_nat n = [''0123456789'' ! n]" by (subst str_nat.simps) simp
      then show ?thesis using sm 1(2) True n digit_inj by simp
    next
      case False
      then have "str_nat n = str_nat (n div 10) @ [''0123456789'' ! (n mod 10)]"
        by (subst str_nat.simps) simp
      then show ?thesis using sm 1(2) str_nat_nonempty[of "n div 10"] by simp
    qed
  next
    case False
    then have sm: "str_nat m = str_nat (m div 10) @ [''0123456789'' ! (m mod 10)]"
      by (subst str_nat.simps) simp
    show ?thesis
    proof (cases "n < 10")
      case True
      then have "str_nat n = [''0123456789'' ! n]" by (subst str_nat.simps) simp
      then show ?thesis using sm 1(2) str_nat_nonempty[of "m div 10"] by simp
    next
      case n: False
      then have sn: "str_nat n = str_nat (n div 10) @ [''0123456789'' ! (n mod 10)]"
        by (subst str_nat.simps) simp
      from sm sn 1(2) have a: "str_nat (m div 10) = str_nat (n div 10)"
        and b: "''0123456789'' ! (m mod 10) = ''0123456789'' ! (n mod 10)" by simp_all
      have "m div 10 = n div 10" using 1(1)[OF False a] .
      moreover have "m mod 10 = n mod 10" using digit_inj[OF _ _ b] by simp
      ultimately show ?thesis by (metis div_mult_mod_eq)
    qed
  qed
qed

lemma placeholder_inj: "placeholder i = placeholder j \<Longrightarrow> i = j"
  by (simp add: placeholder_def str_nat_inj)

lemma distinct_placeholders: "distinct (placeholders n)"
  unfolding placeholders_def
  by (simp add: distinct_map inj_on_def) (metis placeholder_inj)

lemma length_placeholders [simp]: "length (placeholders n) = n"
  by (simp add: placeholders_def)



section \<open>Lexing generated text\<close>

definition is_word :: "string \<Rightarrow> bool" where
  "is_word s \<longleftrightarrow> s \<noteq> [] \<and> ident_start (hd s) \<and> (\<forall>c \<in> set s. ident_char c)"

definition delim :: "char \<Rightarrow> bool" where
  "delim c \<longleftrightarrow> \<not> ident_char c \<and> c \<noteq> CHR 0x22"

lemma ident_start_not_space: "ident_start c \<Longrightarrow> c \<noteq> CHR '' '' \<and> c \<noteq> CHR ''\<newline>''"
  by (auto simp: ident_start_def)

lemma gap_step_letter:
  "ident_start c \<Longrightarrow> gap_step (LexState ls k ts m) c = LexState ls k ts (InName [c])"
  using ident_start_not_space[of c] by simp

lemma gap_step_space: "gap_step (LexState ls k ts m) CHR '' '' = LexState ls k ts Gap"
  by simp

lemma gap_step_newline:
  "gap_step (LexState ls k ts m) CHR ''\<newline>'' = LexState (ls @ [(k, ts)]) 0 [] LineStart"
  by simp

lemma gap_step_equal: "gap_step (LexState ls k ts m) CHR ''='' = LexState ls k ts AfterEq"
  by (simp add: ident_start_def)

lemma gap_step_punct:
  "gap_step (LexState ls k ts m) CHR ''('' = LexState ls k (ts @ [LPAR]) Gap"
  "gap_step (LexState ls k ts m) CHR '')'' = LexState ls k (ts @ [RPAR]) Gap"
  "gap_step (LexState ls k ts m) CHR '','' = LexState ls k (ts @ [COMMA]) Gap"
  "gap_step (LexState ls k ts m) CHR '':'' = LexState ls k (ts @ [COLON]) Gap"
  "gap_step (LexState ls k ts m) CHR ''.'' = LexState ls k (ts @ [DOT]) Gap"
  by (simp_all add: ident_start_def punct_def)

lemmas gap_steps = gap_step_space gap_step_newline gap_step_equal gap_step_punct

declare gap_step.simps [simp del]

lemma lex_in_name:
  "\<forall>c \<in> set s. ident_char c \<Longrightarrow>
   foldl lex_step (LexState ls k ts (InName a)) s = LexState ls k ts (InName (a @ s))"
  by (induction s arbitrary: a) simp_all

lemma lex_word:
  assumes "is_word s" "delim c"
  shows "foldl lex_step (LexState ls k ts Gap) (s @ c # rest)
         = foldl lex_step (gap_step (LexState ls k (ts @ [NAME s]) Gap) c) rest"
proof -
  from assms(1) obtain h t where s: "s = h # t" and h: "ident_start h"
    and t: "\<forall>c \<in> set t. ident_char c"
    by (cases s) (auto simp: is_word_def)
  have "lex_step (LexState ls k ts Gap) h = LexState ls k ts (InName [h])"
    using h by (simp add: gap_step_letter)
  then show ?thesis
    using assms(2) by (simp add: s lex_in_name[OF t] delim_def)
qed

lemma lex_word_start:
  assumes "is_word s" "delim c"
  shows "foldl lex_step (LexState ls k ts LineStart) (s @ c # rest)
         = foldl lex_step (gap_step (LexState ls k (ts @ [NAME s]) Gap) c) rest"
proof -
  from assms(1) obtain h t where s: "s = h # t" and h: "ident_start h"
    and t: "\<forall>c \<in> set t. ident_char c"
    by (cases s) (auto simp: is_word_def)
  have "lex_step (LexState ls k ts LineStart) h = LexState ls k ts (InName [h])"
    using h ident_start_not_space[OF h] by (simp add: gap_step_letter)
  then show ?thesis
    using assms(2) by (simp add: s lex_in_name[OF t] delim_def)
qed

lemma ident_char_digit: "c \<in> set ''0123456789'' \<Longrightarrow> ident_char c"
  unfolding ident_char_def by (rule disjI2)

lemma ident_char_underscore: "ident_char CHR ''_''"
  by (simp add: ident_char_def ident_start_def)

lemma is_word_placeholder: "is_word (placeholder i)"
proof -
  have a: "\<forall>c \<in> set (str_nat i). ident_char c"
    using str_nat_digits[of i] ident_char_digit by blast
  have b: "ident_start CHR ''_''" by (simp add: ident_start_def)
  show ?thesis
    unfolding is_word_def placeholder_def
    using a b ident_char_underscore by simp
qed

lemma delim_simps:
  "delim CHR '',''" "delim CHR '')''" "delim CHR '' ''" "delim CHR ''\<newline>''"
  "delim CHR ''.''" "delim CHR ''(''" "delim CHR '':''" "delim CHR ''=''" "delim CHR ''!''"
  by (simp_all add: delim_def ident_char_def ident_start_def)

definition lexes :: "string \<Rightarrow> token list \<Rightarrow> bool" where
  "lexes x t \<longleftrightarrow> (\<forall>ls k ts c rest. delim c \<longrightarrow>
      foldl lex_step (LexState ls k ts Gap) (x @ c # rest)
      = foldl lex_step (gap_step (LexState ls k (ts @ t) Gap) c) rest)"

lemma lexesD:
  "lexes x t \<Longrightarrow> delim c \<Longrightarrow>
   foldl lex_step (LexState ls k ts Gap) (x @ c # rest)
   = foldl lex_step (gap_step (LexState ls k (ts @ t) Gap) c) rest"
  by (simp add: lexes_def)

lemma lexes_word: "is_word s \<Longrightarrow> lexes s [NAME s]"
  unfolding lexes_def by (intro allI impI lex_word)

lemma lex_join_comma:
  assumes "\<forall>x \<in> set xs. lexes x (tk x)" "xs \<noteq> []" "delim c"
  shows "foldl lex_step (LexState ls k ts Gap) (join '','' xs @ c # rest)
         = foldl lex_step (gap_step (LexState ls k (ts @ join [COMMA] (map tk xs)) Gap) c) rest"
  using assms(1,2)
proof (induction xs arbitrary: ts)
  case Nil
  then show ?case by simp
next
  case (Cons x xs)
  have x: "lexes x (tk x)" using Cons.prems by simp
  show ?case
  proof (cases xs)
    case Nil
    then show ?thesis using lexesD[OF x assms(3)] by simp
  next
    case tl: (Cons y ys)
    have j: "join '','' (x # xs) = x @ CHR '','' # join '','' xs"
      by (simp add: tl)
    have jt: "join [COMMA] (map tk (x # xs)) = tk x @ COMMA # join [COMMA] (map tk xs)"
      by (simp add: tl)
    have "foldl lex_step (LexState ls k ts Gap) (join '','' (x # xs) @ c # rest)
          = foldl lex_step (LexState ls k ts Gap) (x @ CHR '','' # (join '','' xs @ c # rest))"
      by (simp only: j append_assoc append_Cons)
    also have "\<dots> = foldl lex_step (LexState ls k ((ts @ tk x) @ [COMMA]) Gap) (join '','' xs @ c # rest)"
      using lexesD[OF x delim_simps(1)] by (simp only: gap_step_punct)
    also have "\<dots> = foldl lex_step
          (gap_step (LexState ls k (((ts @ tk x) @ [COMMA]) @ join [COMMA] (map tk xs)) Gap) c) rest"
    proof (rule Cons.IH)
      show "\<forall>x\<in>set xs. lexes x (tk x)" using Cons.prems by simp
      show "xs \<noteq> []" by (simp add: tl)
    qed
    finally show ?thesis by (simp only: jt append_assoc append_Cons append_Nil)
  qed
qed


section \<open>The zero-field type\<close>

text \<open>
  Claim C4.  For a type without fields the generated constructor source is a
  \<open>def\<close> line with no body, and the generated equality source holds the tuple
  display \<open>(,)\<close>; neither is Python, so \<open>exec\<close> raises \<open>SyntaxError\<close> and decorating
  the type \<open>Empty\<close> raises instead of returning the type.
\<close>

theorem empty_type_decoration_raises:
  "make_init (placeholders 0) = ''def __init__(self, ):\<newline>''
   \<and> exec_def (make_init (placeholders 0)) = Inl SyntaxError
   \<and> exec_def (make_eq (placeholders 0)) = Inl SyntaxError
   \<and> fst (dataklass Empty init_state) = Some SyntaxError"
  by code_simp

section \<open>Equality with an object of another type\<close>

text \<open>
  Claim C1.  The equality template refers to the names \<open>__class__\<close>, the
  placeholders and \<open>NotImplemented\<close>, in this order.  Patching keeps the first name
  and appends the fields, so the patched table has lost \<open>NotImplemented\<close> while the
  \<open>else\<close> branch still loads name number \<open>n + 1\<close>.  For \<open>Coordinates(2, 3) == (2, 3)\<close>
  the synthesized method therefore reads past the end of \<open>co_names\<close> instead of
  returning \<open>NotImplemented\<close>, and the comparison does not evaluate to false.
\<close>

theorem eq_other_type_reads_past_names:
  "(case construct (world_of (decorated Coordinates)) 0 [Val (PInt 2), Val (PInt 3)] [] of
      Inl e \<Rightarrow> False
    | Inr (a, w) \<Rightarrow>
        call_eq w a (Val (PTuple [PInt 2, PInt 3])) = Inl (UnsafeNameIndex 3)
        \<and> py_eq w a (Val (PTuple [PInt 2, PInt 3])) = Inl (UnsafeNameIndex 3))"
  by code_simp

section \<open>What specialization changes\<close>

text \<open>
  Claim C6.  Specializing the equality template of arity 2 to the fields \<open>x, y\<close>
  leaves the instructions and constants alone and renames the placeholders, but it
  also removes the name \<open>NotImplemented\<close>, which is not a placeholder and which
  the instruction \<open>LOAD_GLOBAL 3\<close> still refers to.
\<close>

theorem eq_specialization_drops_name:
  "(case exec_def (make_eq (placeholders 2)) of
      Inl e \<Rightarrow> False
    | Inr t \<Rightarrow>
        co_names t = [''__class__'', ''_0'', ''_1'', ''NotImplemented'']
        \<and> LOAD_GLOBAL 3 \<in> set (co_code t)
        \<and> (case patch_attributes \<lparr>fn_code = t, fn_ident = 0\<rparr> [''x'', ''y''] 1 1 of
              Inl e \<Rightarrow> False
            | Inr p \<Rightarrow>
                co_names (fn_code p) = [''__class__'', ''x'', ''y'']
                \<and> co_code (fn_code p) = co_code t
                \<and> co_consts (fn_code p) = co_consts t))"
  by code_simp

section \<open>The cache of templates\<close>

text \<open>Serving a sequence of requests, each for a family, its generator and an arity.\<close>

fun serve :: "(family \<times> (string list \<Rightarrow> string) \<times> nat) list \<Rightarrow> modstate \<Rightarrow> modstate" where
  "serve [] st = st"
| "serve ((fam, func, m) # rs) st = serve rs (snd (codegen fam func m st))"

definition holds :: "family \<Rightarrow> nat \<Rightarrow> pyfunc \<Rightarrow> nat set \<Rightarrow> modstate \<Rightarrow> bool" where
  "holds fam n f R st \<longleftrightarrow>
     (\<exists>pre post. caches st fam = pre @ (n, f) # post \<and> n \<notin> fst ` set pre
        \<and> distinct (map fst pre) \<and> fst ` set pre \<subseteq> R)"

lemma holds_lookup:
  assumes "holds fam n f R st"
  shows "map_of (caches st fam) n = Some f"
proof -
  from assms obtain pre post where c: "caches st fam = pre @ (n, f) # post"
    and n: "n \<notin> fst ` set pre"
    by (auto simp: holds_def)
  have "map_of pre n = None" using n by (simp add: map_of_eq_None_iff)
  then show ?thesis by (simp add: c map_add_def)
qed

lemma codegen_hit:
  "map_of (caches st fam) n = Some f \<Longrightarrow>
   fst (codegen fam func n st) = Inr f \<and> execs (snd (codegen fam func n st)) = execs st"
  by (simp add: codegen_def)

lemma codegen_other_family:
  "fam' \<noteq> fam \<Longrightarrow> caches (snd (codegen fam' func m st)) fam = caches st fam"
  by (auto simp: codegen_def Let_def split: option.splits sum.splits)

lemma holds_head: "caches st fam = (n, f) # post \<Longrightarrow> holds fam n f R st"
  unfolding holds_def by (intro exI[of _ "[]"] exI[of _ post]) simp

lemma codegen_first:
  assumes "codegen fam func n st = (Inr f, st1)"
  shows "holds fam n f R st1"
proof -
  have "\<exists>post. caches st1 fam = (n, f) # post"
  proof (cases "map_of (caches st fam) n")
    case None
    with assms show ?thesis
      by (auto simp: codegen_def Let_def split: sum.splits)
  next
    case (Some g)
    with assms show ?thesis
      by (auto simp: codegen_def)
  qed
  then show ?thesis using holds_head by blast
qed

lemma holds_step:
  assumes h: "holds fam n f R st" and fin: "finite R" and card: "card R < lru_maxsize"
    and m: "fam' = fam \<Longrightarrow> m = n \<or> m \<in> R"
  shows "holds fam n f R (snd (codegen fam' func m st))"
proof (cases "fam' = fam")
  case False
  then show ?thesis using h by (simp add: holds_def codegen_other_family)
next
  case True
  from h obtain pre post where c: "caches st fam = pre @ (n, f) # post"
    and npre: "n \<notin> fst ` set pre" and dpre: "distinct (map fst pre)"
    and rpre: "fst ` set pre \<subseteq> R"
    by (auto simp: holds_def)
  show ?thesis
  proof (cases "m = n")
    case mn: True
    have "map_of (caches st fam) n = Some f" using h by (rule holds_lookup)
    then have "caches (snd (codegen fam' func m st)) fam
        = (n, f) # filter (\<lambda>e. fst e \<noteq> n) (caches st fam)"
      by (simp add: codegen_def True mn)
    then show ?thesis by (rule holds_head)
  next
    case mn: False
    then have mR: "m \<in> R" using m True by simp
    show ?thesis
    proof (cases "map_of (caches st fam) m")
      case (Some g)
      have "caches (snd (codegen fam' func m st)) fam
          = ((m, g) # filter (\<lambda>e. fst e \<noteq> m) pre) @ (n, f) # filter (\<lambda>e. fst e \<noteq> m) post"
        using Some mn by (simp add: codegen_def True c)
      moreover have "n \<notin> fst ` set ((m, g) # filter (\<lambda>e. fst e \<noteq> m) pre)"
        using npre mn by auto
      moreover have "distinct (map fst ((m, g) # filter (\<lambda>e. fst e \<noteq> m) pre))"
        using dpre by (auto simp: distinct_map_filter)
      moreover have "fst ` set ((m, g) # filter (\<lambda>e. fst e \<noteq> m) pre) \<subseteq> R"
        using rpre mR by auto
      ultimately show ?thesis unfolding holds_def by blast
    next
      case None
      show ?thesis
      proof (cases "exec_def (func (placeholders m))")
        case (Inl e)
        then have "caches (snd (codegen fam' func m st)) fam = caches st fam"
          using None by (simp add: codegen_def True)
        then show ?thesis using h by (simp add: holds_def)
      next
        case (Inr code)
        have mpre: "m \<notin> fst ` set pre"
          using None c by (auto simp: map_of_eq_None_iff)
        have "fst ` set pre \<subseteq> R - {m}" using rpre mpre by auto
        then have "card (fst ` set pre) \<le> card (R - {m})"
          using fin by (intro card_mono) auto
        moreover have "card (R - {m}) < card R"
          using fin mR by (intro card_Diff1_less)
        moreover have "card (fst ` set pre) = length pre"
          using dpre by (metis distinct_card length_map set_map)
        ultimately have lp: "Suc (length pre) < lru_maxsize" using card by linarith
        define old where "old = (if lru_maxsize \<le> length (caches st fam)
                                 then butlast (caches st fam) else caches st fam)"
        have "\<exists>post'. old = pre @ (n, f) # post'"
        proof (cases "lru_maxsize \<le> length (caches st fam)")
          case False
          then show ?thesis by (simp add: old_def c)
        next
          case big: True
          then have "post \<noteq> []" using lp c by auto
          then have "butlast (pre @ (n, f) # post) = pre @ (n, f) # butlast post"
            by (simp add: butlast_append)
          then show ?thesis using big by (simp add: old_def c)
        qed
        then obtain post' where o: "old = pre @ (n, f) # post'" by blast
        have "caches (snd (codegen fam' func m st)) fam
            = ((m, \<lparr>fn_code = code, fn_ident = next_ident st\<rparr>) # pre) @ (n, f) # post'"
          using None Inr o by (simp add: codegen_def True Let_def old_def)
        moreover have "n \<notin> fst ` set ((m, \<lparr>fn_code = code, fn_ident = next_ident st\<rparr>) # pre)"
          using npre mn by auto
        moreover have "distinct (map fst ((m, \<lparr>fn_code = code, fn_ident = next_ident st\<rparr>) # pre))"
          using dpre mpre by auto
        moreover have "fst ` set ((m, \<lparr>fn_code = code, fn_ident = next_ident st\<rparr>) # pre) \<subseteq> R"
          using rpre mR by auto
        ultimately show ?thesis unfolding holds_def by blast
      qed
    qed
  qed
qed

lemma holds_serve:
  assumes "holds fam n f R st" "finite R" "card R < lru_maxsize"
    and "\<forall>(fam', func, m) \<in> set rs. fam' = fam \<longrightarrow> m = n \<or> m \<in> R"
  shows "holds fam n f R (serve rs st)"
  using assms(1,4)
proof (induction rs arbitrary: st)
  case Nil
  then show ?case by simp
next
  case (Cons r rs)
  obtain fam' func m where r: "r = (fam', func, m)" by (cases r)
  have "holds fam n f R (snd (codegen fam' func m st))"
    using Cons.prems by (intro holds_step assms(2,3)) (auto simp: r)
  then show ?case using Cons.prems(2) by (simp add: r Cons.IH)
qed

definition others :: "family \<Rightarrow> nat \<Rightarrow> (family \<times> (string list \<Rightarrow> string) \<times> nat) list \<Rightarrow> nat set" where
  "others fam n rs = {m. m \<noteq> n \<and> (\<exists>func. (fam, func, m) \<in> set rs)}"

lemma finite_others: "finite (others fam n rs)"
proof -
  have "others fam n rs \<subseteq> (\<lambda>r. snd (snd r)) ` set rs"
    by (force simp: others_def)
  then show ?thesis by (rule finite_subset) simp
qed

text \<open>
  Claim C7 (as amended).  Once a request for a family and an arity has returned a
  template, a later request for the same family and arity returns the identical
  function object and does not run \<open>exec\<close>, provided that fewer than 128 other
  arities of that family were requested in between (requests for other families do
  not count).
\<close>

theorem template_cached_while_recent:
  assumes "codegen fam func n st = (Inr f, st1)"
    and "card (others fam n rs) < lru_maxsize"
  shows "fst (codegen fam func n (serve rs st1)) = Inr f
       \<and> execs (snd (codegen fam func n (serve rs st1))) = execs (serve rs st1)"
proof -
  have "holds fam n f (others fam n rs) st1"
    using assms(1) by (rule codegen_first)
  then have "holds fam n f (others fam n rs) (serve rs st1)"
    using finite_others assms(2)
    by (rule holds_serve) (auto simp: others_def)
  then show ?thesis by (intro codegen_hit holds_lookup)
qed


section \<open>The constructor template\<close>

lemma lit_step: "foldl lex_step st (c # rest) = foldl lex_step (lex_step st c) rest"
  by simp

lemma ident_char_lit [simp]:
  "ident_char CHR ''s''" "ident_char CHR ''e''" "ident_char CHR ''l''" "ident_char CHR ''f''"
  "\<not> ident_char CHR ''.''" "\<not> ident_char CHR '' ''" "\<not> ident_char CHR ''=''"
  "\<not> ident_char CHR '')''" "\<not> ident_char CHR '',''" "\<not> ident_char CHR ''(''"
  "\<not> ident_char CHR '':''" "\<not> ident_char CHR ''\<newline>''"
  by (simp_all add: ident_char_def ident_start_def)

lemma ident_start_lit [simp]:
  "ident_start CHR ''s''" "ident_start CHR ''o''" "\<not> ident_start CHR '' ''"
  "\<not> ident_start CHR ''=''" "\<not> ident_start CHR ''\<newline>''"
  by (simp_all add: ident_start_def)

lemma lex_self_dot:
  "foldl lex_step (LexState ls k ts Gap) (''self.'' @ rest)
   = foldl lex_step (LexState ls k (ts @ [NAME ''self'', DOT]) Gap) rest"
  by (simp add: gap_step_letter gap_steps)

lemma lex_init_line:
  assumes "is_word n"
  shows "foldl lex_step (LexState ls 0 [] LineStart) ('' self.'' @ n @ '' = '' @ n @ ''\<newline>'' @ rest)
         = foldl lex_step (LexState (ls @ [(1, [NAME ''self'', DOT, NAME n, EQUAL, NAME n])]) 0 [] LineStart) rest"
proof -
  have "foldl lex_step (LexState ls 0 [] LineStart) ('' self.'' @ n @ '' = '' @ n @ ''\<newline>'' @ rest)
      = foldl lex_step (LexState ls 1 [] Gap) (''self.'' @ (n @ CHR '' '' # (''= '' @ n @ ''\<newline>'' @ rest)))"
    by (simp add: gap_step_letter gap_steps)
  also have "\<dots> = foldl lex_step (LexState ls 1 [NAME ''self'', DOT] Gap) (n @ CHR '' '' # (''= '' @ n @ ''\<newline>'' @ rest))"
    by (simp only: lex_self_dot append_Nil)
  also have "\<dots> = foldl lex_step (gap_step (LexState ls 1 ([NAME ''self'', DOT] @ [NAME n]) Gap) CHR '' '') (''= '' @ n @ ''\<newline>'' @ rest)"
    by (rule lex_word[OF assms delim_simps(3)])
  also have "\<dots> = foldl lex_step (LexState ls 1 [NAME ''self'', DOT, NAME n, EQUAL] Gap) (n @ CHR ''\<newline>'' # rest)"
    by (simp add: gap_steps)
  also have "\<dots> = foldl lex_step (gap_step (LexState ls 1 ([NAME ''self'', DOT, NAME n, EQUAL] @ [NAME n]) Gap) CHR ''\<newline>'') rest"
    by (rule lex_word[OF assms delim_simps(4)])
  also have "\<dots> = foldl lex_step (LexState (ls @ [(1, [NAME ''self'', DOT, NAME n, EQUAL, NAME n])]) 0 [] LineStart) rest"
    by (simp add: gap_steps)
  finally show ?thesis .
qed


definition init_line :: "string \<Rightarrow> nat \<times> token list" where
  "init_line n = (1, [NAME ''self'', DOT, NAME n, EQUAL, NAME n])"

lemma lex_init_body:
  assumes "\<forall>n \<in> set names. is_word n"
  shows "foldl lex_step (LexState ls 0 [] LineStart)
           (join ''\<newline>'' (map (\<lambda>name. '' self.'' @ name @ '' = '' @ name @ ''\<newline>'') names))
         = LexState (ls @ map init_line names) 0 [] LineStart"
  using assms
proof (induction names arbitrary: ls)
  case Nil
  then show ?case by simp
next
  case (Cons n names)
  have w: "is_word n" using Cons.prems by simp
  show ?case
  proof (cases names)
    case Nil
    have "foldl lex_step (LexState ls 0 [] LineStart) ('' self.'' @ n @ '' = '' @ n @ ''\<newline>'' @ [])
          = foldl lex_step (LexState (ls @ [init_line n]) 0 [] LineStart) []"
      unfolding init_line_def by (rule lex_init_line[OF w])
    then show ?thesis by (simp add: Nil)
  next
    case tl: (Cons m ms)
    let ?rest = "join ''\<newline>'' (map (\<lambda>name. '' self.'' @ name @ '' = '' @ name @ ''\<newline>'') names)"
    have j: "join ''\<newline>'' (map (\<lambda>name. '' self.'' @ name @ '' = '' @ name @ ''\<newline>'') (n # names))
             = '' self.'' @ n @ '' = '' @ n @ ''\<newline>'' @ (CHR ''\<newline>'' # ?rest)"
      by (simp add: tl)
    have "foldl lex_step (LexState ls 0 [] LineStart) ('' self.'' @ n @ '' = '' @ n @ ''\<newline>'' @ (CHR ''\<newline>'' # ?rest))
          = foldl lex_step (LexState (ls @ [init_line n]) 0 [] LineStart) (CHR ''\<newline>'' # ?rest)"
      unfolding init_line_def by (rule lex_init_line[OF w])
    also have "\<dots> = foldl lex_step (LexState (ls @ [init_line n]) 0 [] LineStart) ?rest"
      by simp
    also have "\<dots> = LexState ((ls @ [init_line n]) @ map init_line names) 0 [] LineStart"
      using Cons.prems by (intro Cons.IH) simp
    finally show ?thesis by (simp only: j) simp
  qed
qed

definition init_header :: "string list \<Rightarrow> nat \<times> token list" where
  "init_header names =
     (0, [NAME ''def'', NAME ''__init__'', LPAR, NAME ''self'', COMMA]
         @ join [COMMA] (map (\<lambda>n. [NAME n]) names) @ [RPAR, COLON])"

lemma lex_init_prefix:
  "foldl lex_step (LexState [] 0 [] LineStart) (''def __init__(self, '' @ rest)
   = foldl lex_step (LexState [] 0 [NAME ''def'', NAME ''__init__'', LPAR, NAME ''self'', COMMA] Gap) rest"
  by (simp add: gap_step_letter gap_steps ident_char_def ident_start_def)

lemma tokenize_make_init:
  assumes "\<forall>n \<in> set names. is_word n" "names \<noteq> []"
  shows "tokenize (make_init names) = init_header names # map init_line names"
proof -
  let ?body = "join ''\<newline>'' (map (\<lambda>name. '' self.'' @ name @ '' = '' @ name @ ''\<newline>'') names)"
  let ?pre = "[NAME ''def'', NAME ''__init__'', LPAR, NAME ''self'', COMMA]"
  have "foldl lex_step (LexState [] 0 [] LineStart) (make_init names)
        = foldl lex_step (LexState [] 0 ?pre Gap) (join '','' names @ CHR '')'' # ('':\<newline>'' @ ?body))"
    unfolding make_init_def by (simp only: lex_init_prefix append_assoc) simp
  also have "\<dots> = foldl lex_step (gap_step (LexState [] 0 (?pre @ join [COMMA] (map (\<lambda>n. [NAME n]) names)) Gap) CHR '')'')
                        ('':\<newline>'' @ ?body)"
    using assms by (intro lex_join_comma) (auto simp: lexes_word delim_simps)
  also have "\<dots> = foldl lex_step (LexState [init_header names] 0 [] LineStart) ?body"
    by (simp add: gap_steps init_header_def)
  also have "\<dots> = LexState ([init_header names] @ map init_line names) 0 [] LineStart"
    using assms(1) by (rule lex_init_body)
  finally show ?thesis by (simp add: tokenize_def)
qed


definition good_names :: "string list \<Rightarrow> bool" where
  "good_names names \<longleftrightarrow>
     (\<forall>n \<in> set names. is_word n \<and> n \<notin> set kwlist) \<and> distinct names
     \<and> ''self'' \<notin> set names \<and> ''other'' \<notin> set names \<and> ''type'' \<notin> set names
     \<and> ''__class__'' \<notin> set names \<and> ''__name__'' \<notin> set names
     \<and> ''NotImplemented'' \<notin> set names"

lemma placeholder_not_keyword: "placeholder i \<notin> set kwlist"
  by (simp add: placeholder_def kwlist_def)

lemma placeholder_not_special:
  "placeholder i \<noteq> ''self''" "placeholder i \<noteq> ''other''" "placeholder i \<noteq> ''type''"
  "placeholder i \<noteq> ''NotImplemented''"
  by (simp_all add: placeholder_def)

lemma placeholder_not_dunder:
  "placeholder i \<noteq> ''__class__''" "placeholder i \<noteq> ''__name__''"
proof -
  have "hd (str_nat i) \<in> set ''0123456789''"
    using str_nat_digits[of i] str_nat_nonempty[of i] by (cases "str_nat i") auto
  then have "hd (str_nat i) \<noteq> CHR ''_''" by auto
  then show "placeholder i \<noteq> ''__class__''" "placeholder i \<noteq> ''__name__''"
    by (auto simp: placeholder_def)
qed

lemma not_in_placeholders: "(\<And>i. placeholder i \<noteq> s) \<Longrightarrow> s \<notin> set (placeholders n)"
  by (auto simp: placeholders_def)

lemma in_placeholders: "s \<in> set (placeholders n) \<Longrightarrow> \<exists>i. s = placeholder i"
  by (auto simp: placeholders_def)

lemma good_placeholders: "good_names (placeholders n)"
proof -
  have "\<forall>s \<in> set (placeholders n). is_word s \<and> s \<notin> set kwlist"
    using in_placeholders is_word_placeholder placeholder_not_keyword by blast
  then show ?thesis
    unfolding good_names_def
    by (simp add: distinct_placeholders not_in_placeholders
        placeholder_not_special placeholder_not_dunder)
qed

lemma self_not_keyword: "''self'' \<notin> set kwlist" "''other'' \<notin> set kwlist"
  "''type'' \<notin> set kwlist" "''__init__'' \<notin> set kwlist" "''__repr__'' \<notin> set kwlist"
  "''__eq__'' \<notin> set kwlist" "''__class__'' \<notin> set kwlist" "''__name__'' \<notin> set kwlist"
  "''NotImplemented'' \<notin> set kwlist"
  by (simp_all add: kwlist_def)

lemma params_names:
  assumes "\<forall>n \<in> set names. n \<notin> set kwlist" "names \<noteq> []"
  shows "params acc (join [COMMA] (map (\<lambda>n. [NAME n]) names) @ RPAR # r) = Inr (acc @ names, r)"
  using assms
proof (induction names arbitrary: acc)
  case Nil
  then show ?case by simp
next
  case (Cons n names)
  show ?case
  proof (cases names)
    case Nil
    then show ?thesis using Cons.prems by simp
  next
    case tl: (Cons m ms)
    have "params acc (join [COMMA] (map (\<lambda>n. [NAME n]) (n # names)) @ RPAR # r)
          = params (acc @ [n]) (join [COMMA] (map (\<lambda>n. [NAME n]) names) @ RPAR # r)"
      using Cons.prems by (simp add: tl)
    also have "\<dots> = Inr ((acc @ [n]) @ names, r)"
      using Cons.prems by (intro Cons.IH) (simp_all add: tl)
    finally show ?thesis by simp
  qed
qed

definition init_stmt :: "string \<Rightarrow> stmt" where
  "init_stmt n = Simple (Assign (Name ''self'') n (Operand (Primary (Name n))))"

lemma parse_init_line:
  assumes "n \<notin> set kwlist"
  shows "parse_simple (snd (init_line n)) = Inr (Assign (Name ''self'') n (Operand (Primary (Name n))))"
  using assms
  by (simp add: init_line_def parse_simple_def parse_primary_def parse_expr_def
      parse_operand_def self_not_keyword)

lemma parse_init_body:
  assumes "\<forall>n \<in> set names. n \<notin> set kwlist"
  shows "parse_body 1 (map init_line names) = Inr (map init_stmt names)"
  using assms
proof (induction names)
  case Nil
  then show ?case by (simp add: parse_body.simps)
next
  case (Cons n names)
  have "fst (init_line n) = 1" "hd (snd (init_line n)) \<noteq> NAME ''if''"
    by (simp_all add: init_line_def)
  then show ?case
    using Cons parse_init_line[of n]
    by (simp add: parse_body.simps init_stmt_def)
qed

lemma parse_make_init:
  assumes "good_names names" "names \<noteq> []"
  shows "parse_funcdef (tokenize (make_init names))
         = Inr \<lparr>fd_name = ''__init__'', fd_params = ''self'' # names, fd_body = map init_stmt names\<rparr>"
proof -
  have w: "\<forall>n \<in> set names. is_word n" and k: "\<forall>n \<in> set names. n \<notin> set kwlist"
    and d: "distinct (''self'' # names)"
    using assms(1) by (auto simp: good_names_def)
  obtain n ns where names: "names = n # ns" using assms(2) by (cases names) auto
  have p: "params [''self''] (join [COMMA] (map (\<lambda>n. [NAME n]) names) @ RPAR # [COLON])
           = Inr ([''self''] @ names, [COLON])"
    using k assms(2) by (rule params_names)
  have b: "parse_body 1 (map init_line names) = Inr (map init_stmt names)"
    using k by (rule parse_init_body)
  have f: "map init_line names = (1, snd (init_line n)) # map init_line ns"
    by (simp add: names init_line_def)
  show ?thesis
    unfolding tokenize_make_init[OF w assms(2)]
    using p b d
    by (simp add: parse_funcdef_def init_header_def self_not_keyword f[symmetric])
       (simp add: f)
qed


lemma index_of_nth: "distinct xs \<Longrightarrow> i < length xs \<Longrightarrow> index_of (xs ! i) xs = i"
proof (induction xs arbitrary: i)
  case Nil
  then show ?case by simp
next
  case (Cons x xs)
  then show ?case by (cases i) auto
qed

lemma index_of_less: "x \<in> set xs \<Longrightarrow> index_of x xs < length xs"
  by (induction xs) auto

lemma nth_index_of: "x \<in> set xs \<Longrightarrow> xs ! index_of x xs = x"
  by (induction xs) auto

lemma map_index_of: "distinct xs \<Longrightarrow> map (\<lambda>x. f (index_of x xs)) xs = map f [0..<length xs]"
  by (rule nth_equalityI) (simp_all add: index_of_nth)

definition init_instrs :: "nat \<Rightarrow> instr list" where
  "init_instrs n =
     concat (map (\<lambda>i. [LOAD_FAST (Suc i), LOAD_FAST 0, STORE_ATTR i]) [0..<n])
     @ [LOAD_CONST 0, RETURN_VALUE]"

definition init_template :: "nat \<Rightarrow> code" where
  "init_template n =
     \<lparr>co_argcount = Suc n, co_posonlyargcount = 0, co_kwonlyargcount = 0,
      co_nlocals = Suc n, co_stacksize = stack_depth 0 0 (init_instrs n), co_flags = 67,
      co_code = init_instrs n, co_consts = [ConstNone], co_names = placeholders n,
      co_varnames = ''self'' # placeholders n,
      co_filename = ''<string>'', co_name = ''__init__'', co_firstlineno = 1,
      co_lnotab = [], co_freevars = [], co_cellvars = []\<rparr>"

definition init_sym :: "string list \<Rightarrow> sinstr list" where
  "init_sym names =
     concat (map (\<lambda>n. [SName n, SName ''self'', SStoreAttr n]) names)
     @ [SConst ConstNone, SOp RETURN_VALUE]"

lemma cg_init_body: "cg_body (map init_stmt names) = init_sym names"
  unfolding init_sym_def
  by (induction names) (simp_all add: cg_body_def init_stmt_def)

lemma init_name_refs:
  "concat (map (name_refs (''self'' # names)) (init_sym names)) = names"
proof -
  have "set xs \<subseteq> set names \<Longrightarrow>
        concat (map (name_refs (''self'' # names))
          (concat (map (\<lambda>n. [SName n, SName ''self'', SStoreAttr n]) xs))) = xs" for xs
    by (induction xs) auto
  then show ?thesis by (simp add: init_sym_def)
qed

lemma init_const_refs: "concat (map const_refs (init_sym names)) = [ConstNone]"
proof -
  have "concat (map const_refs (concat (map (\<lambda>n. [SName n, SName ''self'', SStoreAttr n]) xs))) = []" for xs
    by (induction xs) auto
  then show ?thesis by (simp add: init_sym_def)
qed

lemma init_resolved:
  assumes "distinct names" "''self'' \<notin> set names"
  shows "map (resolve (''self'' # names) names [ConstNone]) (init_sym names)
         = init_instrs (length names)"
proof -
  have "map (resolve (''self'' # names) names [ConstNone])
          (concat (map (\<lambda>n. [SName n, SName ''self'', SStoreAttr n]) names))
        = concat (map (\<lambda>n. [LOAD_FAST (Suc (index_of n names)), LOAD_FAST 0,
                              STORE_ATTR (index_of n names)]) names)"
    using assms(2) by (simp add: map_concat comp_def) (rule arg_cong[of _ _ concat], auto)
  also have "\<dots> = concat (map (\<lambda>i. [LOAD_FAST (Suc i), LOAD_FAST 0, STORE_ATTR i]) [0..<length names])"
    using map_index_of[OF assms(1), of "\<lambda>i. [LOAD_FAST (Suc i), LOAD_FAST 0, STORE_ATTR i]"]
    by simp
  finally show ?thesis by (simp add: init_sym_def init_instrs_def)
qed

lemma first_seen_none: "first_seen [ConstNone, ConstNone] = [ConstNone]"
  by (simp add: first_seen_def)

lemma assemble_init:
  assumes "distinct names" "''self'' \<notin> set names"
  shows "assemble \<lparr>fd_name = ''__init__'', fd_params = ''self'' # names, fd_body = map init_stmt names\<rparr>
         = \<lparr>co_argcount = Suc (length names), co_posonlyargcount = 0, co_kwonlyargcount = 0,
            co_nlocals = Suc (length names),
            co_stacksize = stack_depth 0 0 (init_instrs (length names)), co_flags = 67,
            co_code = init_instrs (length names), co_consts = [ConstNone], co_names = names,
            co_varnames = ''self'' # names,
            co_filename = ''<string>'', co_name = ''__init__'', co_firstlineno = 1,
            co_lnotab = [], co_freevars = [], co_cellvars = []\<rparr>"
  unfolding assemble_def Let_def
  by (simp only: funcdef.simps cg_init_body init_name_refs init_const_refs first_seen_none
      first_seen_id[OF assms(1)] init_resolved[OF assms] length_Cons)

lemma exec_def_make_init:
  assumes "0 < n"
  shows "exec_def (make_init (placeholders n)) = Inr (init_template n)"
proof -
  have g: "good_names (placeholders n)" by (rule good_placeholders)
  have ne: "placeholders n \<noteq> []" using assms by (simp add: placeholders_def)
  have d: "distinct (placeholders n)" "''self'' \<notin> set (placeholders n)"
    using g by (auto simp: good_names_def)
  show ?thesis
    unfolding exec_def_def parse_make_init[OF g ne]
    by (simp add: assemble_init[OF d] init_template_def)
qed

lemma exec_def_make_init_zero: "exec_def (make_init (placeholders 0)) = Inl SyntaxError"
  by code_simp


section \<open>The representation template\<close>

lemma lex_in_fstr:
  "\<forall>c \<in> set s. c \<noteq> CHR 0x22 \<and> c \<noteq> CHR ''\<newline>'' \<Longrightarrow>
   foldl lex_step (LexState ls k ts (InFStr a)) s = LexState ls k ts (InFStr (a @ s))"
  by (induction s arbitrary: a) simp_all

lemma set_join: "set (join sep xs) \<subseteq> set sep \<union> \<Union> (set ` set xs)"
  by (induction sep xs rule: join.induct) auto

lemma word_chars: "is_word n \<Longrightarrow> c \<in> set n \<Longrightarrow> ident_char c"
  by (simp add: is_word_def)

lemma special_not_ident:
  "\<not> ident_char CHR 0x22" "\<not> ident_char CHR ''\<newline>''" "\<not> ident_char CHR ''{''"
  "\<not> ident_char CHR ''}''" "\<not> ident_char CHR ''!''" "\<not> ident_char CHR 0x5C"
  by (simp_all add: ident_char_def ident_start_def)

lemma ident_char_not_special:
  assumes "ident_char c"
  shows "c \<noteq> CHR 0x22 \<and> c \<noteq> CHR ''\<newline>'' \<and> c \<noteq> CHR ''{'' \<and> c \<noteq> CHR ''}''
     \<and> c \<noteq> CHR ''!'' \<and> c \<noteq> CHR 0x5C"
  using assms special_not_ident by blast

definition repr_item :: "string \<Rightarrow> string" where
  "repr_item name = ''{self.'' @ name @ ''!r}''"

definition repr_content :: "string list \<Rightarrow> string" where
  "repr_content names =
     ''{type(self).__name__}('' @ join '', '' (map repr_item names) @ '')''"

lemma make_repr_content:
  "make_repr names = ''def __repr__(self):\<newline> return f'' @ dq @ repr_content names @ dq @ ''\<newline>''"
  by (simp add: make_repr_def repr_content_def repr_item_def[abs_def])

lemma join_all:
  "\<forall>c \<in> set sep. P c \<Longrightarrow> \<forall>x \<in> set xs. \<forall>c \<in> set x. P c \<Longrightarrow> \<forall>c \<in> set (join sep xs). P c"
  by (induction sep xs rule: join.induct) auto

lemma repr_content_chars:
  assumes "\<forall>n \<in> set names. is_word n"
  shows "\<forall>c \<in> set (repr_content names). c \<noteq> CHR 0x22 \<and> c \<noteq> CHR ''\<newline>''"
proof -
  let ?P = "\<lambda>c. c \<noteq> CHR 0x22 \<and> c \<noteq> CHR ''\<newline>''"
  have item: "\<forall>c \<in> set (repr_item n). ?P c" if "n \<in> set names" for n
  proof -
    have "\<forall>c \<in> set n. ?P c"
      using assms that word_chars[of n] ident_char_not_special by blast
    then show ?thesis by (simp add: repr_item_def)
  qed
  have "\<forall>c \<in> set '', ''. ?P c" by simp
  moreover have "\<forall>x \<in> set (map repr_item names). \<forall>c \<in> set x. ?P c"
    using item by simp
  ultimately have "\<forall>c \<in> set (join '', '' (map repr_item names)). ?P c"
    by (rule join_all)
  then show ?thesis by (simp add: repr_content_def)
qed

lemma lex_repr_prefix:
  "foldl lex_step (LexState [] 0 [] LineStart) (''def __repr__(self):\<newline> return f'' @ dq @ rest)
   = foldl lex_step (LexState [(0, [NAME ''def'', NAME ''__repr__'', LPAR, NAME ''self'', RPAR, COLON])]
        1 [NAME ''return''] (InFStr [])) rest"
  by (simp add: gap_step_letter gap_steps ident_char_def ident_start_def dq_def)

lemma tokenize_make_repr:
  assumes "\<forall>n \<in> set names. is_word n"
  shows "tokenize (make_repr names)
         = [(0, [NAME ''def'', NAME ''__repr__'', LPAR, NAME ''self'', RPAR, COLON]),
            (1, [NAME ''return'', FSTRING (repr_content names)])]"
proof -
  let ?hdr = "(0::nat, [NAME ''def'', NAME ''__repr__'', LPAR, NAME ''self'', RPAR, COLON])"
  have "foldl lex_step (LexState [] 0 [] LineStart) (make_repr names)
        = foldl lex_step (LexState [?hdr] 1 [NAME ''return''] (InFStr []))
            (repr_content names @ dq @ ''\<newline>'')"
    unfolding make_repr_content by (simp only: lex_repr_prefix append_assoc)
  also have "\<dots> = foldl lex_step (LexState [?hdr] 1 [NAME ''return''] (InFStr ([] @ repr_content names)))
                       (dq @ ''\<newline>'')"
    by (simp only: foldl_append lex_in_fstr[OF repr_content_chars[OF assms]])
  also have "\<dots> = LexState [?hdr, (1, [NAME ''return'', FSTRING (repr_content names)])] 0 [] LineStart"
    by (simp add: dq_def gap_steps)
  finally show ?thesis by (simp add: tokenize_def)
qed


lemma lex_word_end:
  assumes "is_word s"
  shows "foldl lex_step (LexState ls k ts Gap) s = LexState ls k ts (InName s)"
proof -
  from assms obtain h t where s: "s = h # t" and h: "ident_start h"
    and t: "\<forall>c \<in> set t. ident_char c"
    by (cases s) (auto simp: is_word_def)
  have "lex_step (LexState ls k ts Gap) h = LexState ls k ts (InName [h])"
    using h by (simp add: gap_step_letter)
  then show ?thesis by (simp add: s lex_in_name[OF t])
qed

lemma tokenize_self_attr:
  assumes "is_word n"
  shows "tokenize (''self.'' @ n) = [(0, [NAME ''self'', DOT, NAME n])]"
proof -
  have "foldl lex_step (LexState [] 0 [] LineStart) (''self.'' @ n)
        = foldl lex_step (LexState [] 0 [NAME ''self'', DOT] Gap) n"
    by (simp add: gap_step_letter gap_steps)
  also have "\<dots> = LexState [] 0 [NAME ''self'', DOT] (InName n)"
    by (rule lex_word_end[OF assms])
  finally show ?thesis by (simp add: tokenize_def)
qed

definition field_value :: "string \<Rightarrow> fpart" where
  "field_value n = FormattedValue (Attribute (Name ''self'') n) True"

lemma parse_field_self:
  assumes "is_word n" "n \<notin> set kwlist"
  shows "parse_field (''self.'' @ n @ ''!r'') = Inr (field_value n)"
proof -
  have nb: "\<And>c. c \<in> set (''self.'' @ n) \<Longrightarrow> c \<noteq> CHR ''!''"
    using word_chars[OF assms(1)] ident_char_not_special by auto
  have "takeWhile (\<lambda>c. c \<noteq> CHR ''!'') ((''self.'' @ n) @ ''!r'') = ''self.'' @ n"
    using nb by (subst takeWhile_append2) simp_all
  moreover have "dropWhile (\<lambda>c. c \<noteq> CHR ''!'') ((''self.'' @ n) @ ''!r'') = ''!r''"
    using nb by (subst dropWhile_append2) simp_all
  ultimately show ?thesis
    using assms(2) tokenize_self_attr[OF assms(1)]
    by (simp add: parse_field_def Let_def parse_primary_def self_not_keyword field_value_def)
qed

lemma fstring_in_field:
  "\<forall>c \<in> set s. c \<noteq> CHR ''{'' \<and> c \<noteq> CHR ''}'' \<Longrightarrow>
   fstring_parts ps (Inr e) (s @ rest) = fstring_parts ps (Inr (e @ s)) rest"
  by (induction s arbitrary: e) simp_all

lemma fstring_item:
  assumes "is_word n" "n \<notin> set kwlist"
  shows "fstring_parts ps (Inl lit) (repr_item n @ rest)
         = fstring_parts (ps @ literal_part lit @ [field_value n]) (Inl []) rest"
proof -
  have nb: "\<forall>c \<in> set (''self.'' @ n @ ''!r''). c \<noteq> CHR ''{'' \<and> c \<noteq> CHR ''}''"
    using word_chars[OF assms(1)] ident_char_not_special by auto
  have "fstring_parts ps (Inl lit) (repr_item n @ rest)
        = fstring_parts (ps @ literal_part lit) (Inr []) ((''self.'' @ n @ ''!r'') @ CHR ''}'' # rest)"
    by (simp add: repr_item_def)
  also have "\<dots> = fstring_parts (ps @ literal_part lit) (Inr ([] @ ''self.'' @ n @ ''!r'')) (CHR ''}'' # rest)"
    by (rule fstring_in_field[OF nb])
  also have "\<dots> = fstring_parts (ps @ literal_part lit @ [field_value n]) (Inl []) rest"
    using parse_field_self[OF assms] by simp
  finally show ?thesis .
qed

lemma fstring_items:
  assumes "\<forall>n \<in> set names. is_word n \<and> n \<notin> set kwlist" "names \<noteq> []"
  shows "fstring_parts ps (Inl lit) (join '', '' (map repr_item names) @ rest)
         = fstring_parts (ps @ literal_part lit
              @ join [Constant '', ''] (map (\<lambda>n. [field_value n]) names)) (Inl []) rest"
  using assms
proof (induction names arbitrary: ps lit)
  case Nil
  then show ?case by simp
next
  case (Cons n names)
  have n: "is_word n" "n \<notin> set kwlist" using Cons.prems by simp_all
  show ?case
  proof (cases names)
    case Nil
    then show ?thesis using fstring_item[OF n, of ps lit rest] by simp
  next
    case tl: (Cons m ms)
    let ?J = "join '', '' (map repr_item names)"
    have "fstring_parts ps (Inl lit) (join '', '' (map repr_item (n # names)) @ rest)
          = fstring_parts ps (Inl lit) (repr_item n @ ('', '' @ ?J @ rest))"
      by (simp add: tl)
    also have "\<dots> = fstring_parts (ps @ literal_part lit @ [field_value n]) (Inl []) ('', '' @ ?J @ rest)"
      by (rule fstring_item[OF n])
    also have "\<dots> = fstring_parts (ps @ literal_part lit @ [field_value n]) (Inl '', '') (?J @ rest)"
      by simp
    also have "\<dots> = fstring_parts ((ps @ literal_part lit @ [field_value n]) @ literal_part '', ''
              @ join [Constant '', ''] (map (\<lambda>n. [field_value n]) names)) (Inl []) rest"
      using Cons.prems by (intro Cons.IH) (simp_all add: tl)
    finally show ?thesis by (simp add: tl literal_part_def)
  qed
qed

definition type_name_part :: fpart where
  "type_name_part = FormattedValue (Attribute (Call (Name ''type'') [''self'']) ''__name__'') False"

definition repr_parts :: "string list \<Rightarrow> fpart list" where
  "repr_parts names =
     [type_name_part, Constant ''(''] @ join [Constant '', ''] (map (\<lambda>n. [field_value n]) names)
     @ [Constant '')'']"

lemma fstring_type_name:
  "fstring_parts [] (Inl []) (''{type(self).__name__}('' @ rest)
   = fstring_parts [type_name_part] (Inl ''('') rest"
  by code_simp


lemma fstring_repr_content:
  assumes "\<forall>n \<in> set names. is_word n \<and> n \<notin> set kwlist" "names \<noteq> []"
  shows "fstring_parts [] (Inl []) (repr_content names) = Inr (repr_parts names)"
proof -
  have "fstring_parts [] (Inl []) (repr_content names)
        = fstring_parts [type_name_part] (Inl ''('') (join '', '' (map repr_item names) @ '')'')"
    unfolding repr_content_def by (rule fstring_type_name)
  also have "\<dots> = fstring_parts ([type_name_part] @ literal_part ''(''
              @ join [Constant '', ''] (map (\<lambda>n. [field_value n]) names)) (Inl []) '')''"
    using assms by (rule fstring_items)
  also have "\<dots> = Inr (repr_parts names)"
    by (simp add: literal_part_def repr_parts_def)
  finally show ?thesis .
qed

definition repr_def :: "string list \<Rightarrow> funcdef" where
  "repr_def names = \<lparr>fd_name = ''__repr__'', fd_params = [''self''],
      fd_body = [Simple (Return (Operand (JoinedStr (repr_parts names))))]\<rparr>"

lemma parse_make_repr:
  assumes "good_names names" "names \<noteq> []"
  shows "parse_funcdef (tokenize (make_repr names)) = Inr (repr_def names)"
proof -
  have w: "\<forall>n \<in> set names. is_word n" and k: "\<forall>n \<in> set names. is_word n \<and> n \<notin> set kwlist"
    using assms(1) by (auto simp: good_names_def)
  have e: "parse_expr [FSTRING (repr_content names)] = Inr (Operand (JoinedStr (repr_parts names)), [])"
    by (simp add: parse_expr_def parse_operand_def fstring_repr_content[OF k assms(2)])
  have s: "parse_simple [NAME ''return'', FSTRING (repr_content names)]
           = Inr (Return (Operand (JoinedStr (repr_parts names))))"
    by (simp add: parse_simple_def e)
  have b: "parse_body 1 [(1, [NAME ''return'', FSTRING (repr_content names)])]
           = Inr [Simple (Return (Operand (JoinedStr (repr_parts names))))]"
    by (simp add: parse_body.simps s)
  show ?thesis
    unfolding tokenize_make_repr[OF w]
    using b by (simp add: parse_funcdef_def self_not_keyword repr_def_def)
qed


lemma map_join: "map f (join sep xs) = join (map f sep) (map (map f) xs)"
  by (induction sep xs rule: join.induct) simp_all

lemma concat_map_join:
  "concat (map g (join sep xs)) = join (concat (map g sep)) (map (\<lambda>x. concat (map g x)) xs)"
  by (induction sep xs rule: join.induct) simp_all

lemma join_Nil_sep: "join [] xs = concat xs"
  by (induction "[] :: 'a list" xs rule: join.induct) simp_all

lemma join_empty_items: "join sep (map (\<lambda>x. []) xs) = concat (replicate (length xs - 1) sep)"
proof (induction xs)
  case Nil
  then show ?case by simp
next
  case (Cons x xs)
  then show ?case by (cases xs) simp_all
qed

lemma length_join_singletons:
  "xs \<noteq> [] \<Longrightarrow> length (join [s] (map (\<lambda>x. [f x]) xs)) = 2 * length xs - 1"
proof (induction xs)
  case Nil
  then show ?case by simp
next
  case (Cons x xs)
  then show ?case by (cases xs) auto
qed

definition repr_consts :: "nat \<Rightarrow> const list" where
  "repr_consts n =
     first_seen (ConstNone # ConstStr ''('' # concat (replicate (n - 1) [ConstStr '', ''])
                 @ [ConstStr '')'', ConstNone])"

definition repr_sym :: "string list \<Rightarrow> sinstr list" where
  "repr_sym names =
     [SName ''type'', SName ''self'', SOp (CALL_FUNCTION 1), SLoadAttr ''__name__'',
      SOp (FORMAT_VALUE False), SConst (ConstStr ''('')]
     @ join [SConst (ConstStr '', '')]
         (map (\<lambda>n. [SName ''self'', SLoadAttr n, SOp (FORMAT_VALUE True)]) names)
     @ [SConst (ConstStr '')''), SOp (BUILD_STRING (2 * length names + 2)), SOp RETURN_VALUE,
        SConst ConstNone, SOp RETURN_VALUE]"

lemma length_repr_parts: "names \<noteq> [] \<Longrightarrow> length (repr_parts names) = 2 * length names + 2"
  using length_join_singletons[of names "Constant '', ''" field_value]
  by (cases names) (simp_all add: repr_parts_def)

lemma cg_repr_body:
  assumes "names \<noteq> []"
  shows "cg_body (fd_body (repr_def names)) = repr_sym names"
proof -
  have "concat (map cg_part (repr_parts names))
        = [SName ''type'', SName ''self'', SOp (CALL_FUNCTION 1), SLoadAttr ''__name__'',
           SOp (FORMAT_VALUE False), SConst (ConstStr ''('')]
          @ join [SConst (ConstStr '', '')]
              (map (\<lambda>n. [SName ''self'', SLoadAttr n, SOp (FORMAT_VALUE True)]) names)
          @ [SConst (ConstStr '')'')]"
    by (simp add: repr_parts_def type_name_part_def concat_map_join comp_def field_value_def)
  moreover have "length (repr_parts names) \<noteq> 1"
    using length_repr_parts[OF assms] by simp
  ultimately show ?thesis
    using length_repr_parts[OF assms]
    by (simp add: cg_body_def repr_def_def repr_sym_def)
qed

lemma repr_name_refs:
  "concat (map (name_refs [''self'']) (repr_sym names)) = ''type'' # ''__name__'' # names"
proof -
  have "concat (map (name_refs [''self''])
          (join [SConst (ConstStr '', '')]
            (map (\<lambda>n. [SName ''self'', SLoadAttr n, SOp (FORMAT_VALUE True)]) names))) = names"
    by (simp add: concat_map_join comp_def join_Nil_sep)
  then show ?thesis by (simp add: repr_sym_def)
qed

lemma repr_const_refs:
  "ConstNone # concat (map const_refs (repr_sym names))
   = ConstNone # ConstStr ''('' # concat (replicate (length names - 1) [ConstStr '', ''])
     @ [ConstStr '')'', ConstNone]"
proof -
  have "concat (map const_refs
          (join [SConst (ConstStr '', '')]
            (map (\<lambda>n. [SName ''self'', SLoadAttr n, SOp (FORMAT_VALUE True)]) names)))
        = concat (replicate (length names - 1) [ConstStr '', ''])"
    by (simp add: concat_map_join comp_def join_empty_items)
  then show ?thesis by (simp add: repr_sym_def)
qed


definition repr_field_instrs :: "nat \<Rightarrow> instr list" where
  "repr_field_instrs i = [LOAD_FAST 0, LOAD_ATTR (Suc (Suc i)), FORMAT_VALUE True]"

definition repr_instrs :: "nat \<Rightarrow> instr list" where
  "repr_instrs n =
     [LOAD_GLOBAL 0, LOAD_FAST 0, CALL_FUNCTION 1, LOAD_ATTR 1, FORMAT_VALUE False,
      LOAD_CONST (index_of (ConstStr ''('') (repr_consts n))]
     @ join [LOAD_CONST (index_of (ConstStr '', '') (repr_consts n))]
         (map repr_field_instrs [0..<n])
     @ [LOAD_CONST (index_of (ConstStr '')'') (repr_consts n)), BUILD_STRING (2 * n + 2),
        RETURN_VALUE, LOAD_CONST (index_of ConstNone (repr_consts n)), RETURN_VALUE]"

definition repr_template :: "nat \<Rightarrow> code" where
  "repr_template n =
     \<lparr>co_argcount = 1, co_posonlyargcount = 0, co_kwonlyargcount = 0,
      co_nlocals = 1, co_stacksize = stack_depth 0 0 (repr_instrs n), co_flags = 67,
      co_code = repr_instrs n, co_consts = repr_consts n,
      co_names = ''type'' # ''__name__'' # placeholders n,
      co_varnames = [''self''],
      co_filename = ''<string>'', co_name = ''__repr__'', co_firstlineno = 1,
      co_lnotab = [], co_freevars = [], co_cellvars = []\<rparr>"

lemma repr_resolved:
  assumes "distinct names" "''type'' \<notin> set names" "''__name__'' \<notin> set names"
    "''self'' \<notin> set names"
  shows "map (resolve [''self''] (''type'' # ''__name__'' # names) cs) (repr_sym names)
         = [LOAD_GLOBAL 0, LOAD_FAST 0, CALL_FUNCTION 1, LOAD_ATTR 1, FORMAT_VALUE False,
            LOAD_CONST (index_of (ConstStr ''('') cs)]
           @ join [LOAD_CONST (index_of (ConstStr '', '') cs)]
               (map repr_field_instrs [0..<length names])
           @ [LOAD_CONST (index_of (ConstStr '')'') cs), BUILD_STRING (2 * length names + 2),
              RETURN_VALUE, LOAD_CONST (index_of ConstNone cs), RETURN_VALUE]"
proof -
  have "map (map (resolve [''self''] (''type'' # ''__name__'' # names) cs))
          (map (\<lambda>n. [SName ''self'', SLoadAttr n, SOp (FORMAT_VALUE True)]) names)
        = map (\<lambda>n. repr_field_instrs (index_of n names)) names"
    using assms(2,3) by (auto simp: repr_field_instrs_def)
  also have "\<dots> = map repr_field_instrs [0..<length names]"
    by (rule map_index_of[OF assms(1)])
  finally show ?thesis
    by (simp add: repr_sym_def map_join)
qed

lemma assemble_repr:
  assumes "good_names names" "names \<noteq> []"
  shows "assemble (repr_def names)
         = \<lparr>co_argcount = 1, co_posonlyargcount = 0, co_kwonlyargcount = 0,
            co_nlocals = 1, co_stacksize = stack_depth 0 0 (repr_instrs (length names)),
            co_flags = 67,
            co_code = repr_instrs (length names), co_consts = repr_consts (length names),
            co_names = ''type'' # ''__name__'' # names,
            co_varnames = [''self''],
            co_filename = ''<string>'', co_name = ''__repr__'', co_firstlineno = 1,
            co_lnotab = [], co_freevars = [], co_cellvars = []\<rparr>"
proof -
  have d: "distinct names" "''type'' \<notin> set names" "''__name__'' \<notin> set names"
    "''self'' \<notin> set names"
    using assms(1) by (auto simp: good_names_def)
  have dn: "distinct (''type'' # ''__name__'' # names)" using d by simp
  have p: "fd_params (repr_def names) = [''self'']" "fd_name (repr_def names) = ''__repr__''"
    by (simp_all add: repr_def_def)
  have cs: "first_seen (ConstNone # concat (map const_refs (repr_sym names)))
            = repr_consts (length names)"
    by (simp only: repr_const_refs repr_consts_def)
  have ins: "map (resolve [''self''] (''type'' # ''__name__'' # names) (repr_consts (length names)))
              (repr_sym names) = repr_instrs (length names)"
    by (simp only: repr_resolved[OF d] repr_instrs_def)
  show ?thesis
    unfolding assemble_def Let_def
    by (simp only: p cg_repr_body[OF assms(2)] repr_name_refs first_seen_id[OF dn] cs ins
        list.size) simp
qed

lemma exec_def_make_repr:
  assumes "0 < n"
  shows "exec_def (make_repr (placeholders n)) = Inr (repr_template n)"
proof -
  have g: "good_names (placeholders n)" by (rule good_placeholders)
  have ne: "placeholders n \<noteq> []" using assms by (simp add: placeholders_def)
  show ?thesis
    unfolding exec_def_def parse_make_repr[OF g ne]
    by (simp add: assemble_repr[OF g ne] repr_template_def)
qed

lemma exec_def_make_repr_zero:
  "exec_def (make_repr (placeholders 0))
   = Inr \<lparr>co_argcount = 1, co_posonlyargcount = 0, co_kwonlyargcount = 0,
          co_nlocals = 1, co_stacksize = 2, co_flags = 67,
          co_code = [LOAD_GLOBAL 0, LOAD_FAST 0, CALL_FUNCTION 1, LOAD_ATTR 1,
                     FORMAT_VALUE False, LOAD_CONST 1, BUILD_STRING 2, RETURN_VALUE,
                     LOAD_CONST 0, RETURN_VALUE],
          co_consts = [ConstNone, ConstStr ''()''],
          co_names = [''type'', ''__name__''], co_varnames = [''self''],
          co_filename = ''<string>'', co_name = ''__repr__'', co_firstlineno = 1,
          co_lnotab = [], co_freevars = [], co_cellvars = []\<rparr>"
  by code_simp


section \<open>Eviction from the cache\<close>

lemma serve_append: "serve (a @ b) st = serve b (serve a st)"
  by (induction a arbitrary: st) auto

lemma codegen_keys:
  assumes "exec_def (func (placeholders m)) = Inr c"
  shows "map fst (caches (snd (codegen fam func m st)) fam)
         = m # (if m \<in> fst ` set (caches st fam) then filter (\<lambda>k. k \<noteq> m) (map fst (caches st fam))
                else if lru_maxsize \<le> length (caches st fam) then butlast (map fst (caches st fam))
                else map fst (caches st fam))"
proof (cases "map_of (caches st fam) m")
  case None
  then have "m \<notin> fst ` set (caches st fam)" by (simp add: map_of_eq_None_iff)
  then show ?thesis using None assms
    by (simp add: codegen_def Let_def map_butlast)
next
  case (Some f)
  then have "m \<in> fst ` set (caches st fam)" using map_of_SomeD by force
  then show ?thesis using Some
    by (simp add: codegen_def filter_map comp_def)
qed

lemma codegen_length:
  "length (caches st fam) \<le> lru_maxsize \<Longrightarrow>
   length (caches (snd (codegen fam' func m st)) fam) \<le> lru_maxsize"
proof (cases "fam' = fam")
  case False
  assume "length (caches st fam) \<le> lru_maxsize"
  then show ?thesis using False by (simp add: codegen_other_family)
next
  case True
  assume l: "length (caches st fam) \<le> lru_maxsize"
  have "length (filter (\<lambda>e. fst e \<noteq> m) (caches st fam)) < length (caches st fam)"
    if "map_of (caches st fam) m = Some f" for f
  proof -
    have "(m, f) \<in> set (caches st fam)" using that by (rule map_of_SomeD)
    then show ?thesis by (intro length_filter_less[of "(m, f)"]) simp_all
  qed
  then show ?thesis using l True
    by (auto simp: codegen_def Let_def lru_maxsize_def split: option.splits sum.splits)
qed

definition requests :: "family \<Rightarrow> (string list \<Rightarrow> string) \<Rightarrow> nat list
     \<Rightarrow> (family \<times> (string list \<Rightarrow> string) \<times> nat) list" where
  "requests fam func ms = map (\<lambda>m. (fam, func, m)) ms"

lemma serve_fresh:
  assumes "\<forall>m \<in> set ms. \<exists>c. exec_def (func (placeholders m)) = Inr c"
    and "distinct ms" "length ms \<le> lru_maxsize" "length (caches st fam) \<le> lru_maxsize"
  shows "take (length ms) (map fst (caches (serve (requests fam func ms) st) fam)) = rev ms
       \<and> length (caches (serve (requests fam func ms) st) fam) \<le> lru_maxsize"
  using assms(1,2,3)
proof (induction ms rule: rev_induct)
  case Nil
  then show ?case using assms(4) by (simp add: requests_def)
next
  case (snoc m ms)
  let ?st = "serve (requests fam func ms) st"
  let ?ks = "map fst (caches ?st fam)"
  have ih: "take (length ms) ?ks = rev ms" and len: "length (caches ?st fam) \<le> lru_maxsize"
    using snoc by auto
  obtain c where c: "exec_def (func (placeholders m)) = Inr c" using snoc.prems by auto
  have s: "serve (requests fam func (ms @ [m])) st = snd (codegen fam func m ?st)"
    by (simp add: requests_def serve_append)
  have lms: "length ms < lru_maxsize" using snoc.prems by simp
  have mnot: "m \<notin> set (rev ms)" using snoc.prems by simp
  have ks: "?ks = rev ms @ drop (length ms) ?ks"
    using ih by (metis append_take_drop_id)
  have "take (length ms) (filter (\<lambda>k. k \<noteq> m) ?ks) = rev ms"
  proof -
    have "filter (\<lambda>k. k \<noteq> m) ?ks = rev ms @ filter (\<lambda>k. k \<noteq> m) (drop (length ms) ?ks)"
      using mnot by (subst ks) (auto simp: filter_id_conv)
    then show ?thesis by simp
  qed
  moreover have "take (length ms) (butlast ?ks) = rev ms" if "lru_maxsize \<le> length (caches ?st fam)"
  proof -
    have "length ms < length ?ks" using that lms by simp
    then show ?thesis using ih by (simp add: take_butlast)
  qed
  ultimately have "take (length (ms @ [m])) (map fst (caches (snd (codegen fam func m ?st)) fam))
                   = rev (ms @ [m])"
    using ih by (simp add: codegen_keys[of func m c, OF c])
  then show ?case using codegen_length[OF len] by (simp add: s)
qed

lemma next_ident_codegen: "next_ident st \<le> next_ident (snd (codegen fam func m st))"
  by (auto simp: codegen_def Let_def split: option.splits sum.splits)

lemma next_ident_serve: "next_ident st \<le> next_ident (serve rs st)"
proof (induction rs arbitrary: st)
  case Nil
  then show ?case by simp
next
  case (Cons r rs)
  obtain fam func m where r: "r = (fam, func, m)" by (cases r)
  show ?case
    using Cons.IH[of "snd (codegen fam func m st)"] next_ident_codegen[of st fam func m]
    by (simp add: r)
qed

definition evicting_state :: modstate where
  "evicting_state =
     serve (requests Repr make_repr [2..<130]) (snd (codegen Repr make_repr 1 init_state))"

lemma first_repr_request:
  "codegen Repr make_repr 1 init_state
   = (Inr \<lparr>fn_code = repr_template 1, fn_ident = 0\<rparr>,
      init_state\<lparr>caches := (caches init_state)(Repr := [(1, \<lparr>fn_code = repr_template 1, fn_ident = 0\<rparr>)]),
                 execs := 1, next_ident := 1\<rparr>)"
  by (simp add: codegen_def init_state_def exec_def_make_repr lru_maxsize_def Let_def)

lemma first_repr_state:
  "caches (snd (codegen Repr make_repr 1 init_state)) Repr
     = [(1, \<lparr>fn_code = repr_template 1, fn_ident = 0\<rparr>)]"
  "next_ident (snd (codegen Repr make_repr 1 init_state)) = 1"
  unfolding first_repr_request by simp_all

lemma evicting_state_keys: "1 \<notin> fst ` set (caches evicting_state Repr)"
proof -
  define ms :: "nat list" where "ms = [2..<130]"
  have l: "length ms = lru_maxsize" by (simp add: ms_def lru_maxsize_def)
  have m1: "1 \<notin> set ms" by (simp add: ms_def)
  let ?st1 = "snd (codegen Repr make_repr 1 init_state)"
  have "\<forall>m \<in> set ms. \<exists>c. exec_def (make_repr (placeholders m)) = Inr c"
    using exec_def_make_repr by (auto simp: ms_def)
  moreover have "distinct ms" by (simp add: ms_def)
  moreover have "length ms \<le> lru_maxsize" using l by simp
  moreover have "length (caches ?st1 Repr) \<le> lru_maxsize"
    unfolding first_repr_state by (simp add: lru_maxsize_def)
  ultimately have a: "take (length ms) (map fst (caches (serve (requests Repr make_repr ms) ?st1) Repr)) = rev ms"
    and b: "length (caches (serve (requests Repr make_repr ms) ?st1) Repr) \<le> lru_maxsize"
    using serve_fresh by blast+
  have "map fst (caches (serve (requests Repr make_repr ms) ?st1) Repr) = rev ms"
    using a b l by simp
  then have "fst ` set (caches (serve (requests Repr make_repr ms) ?st1) Repr) = set ms"
    by (metis set_map set_rev)
  then show ?thesis using m1 by (simp add: evicting_state_def ms_def)
qed

text \<open>
  The bound is real: after arity 1 has been compiled for the representation family
  and the 128 arities 2 .. 129 have been requested, arity 1 is no longer cached; the
  next request for it runs \<open>exec\<close> again and returns a different function object.
\<close>

theorem template_recompiled_after_eviction:
  "fst (codegen Repr make_repr 1 init_state) = Inr \<lparr>fn_code = repr_template 1, fn_ident = 0\<rparr>
   \<and> execs (snd (codegen Repr make_repr 1 evicting_state)) = Suc (execs evicting_state)
   \<and> fst (codegen Repr make_repr 1 evicting_state) \<noteq> fst (codegen Repr make_repr 1 init_state)"
proof -
  have n: "map_of (caches evicting_state Repr) 1 = None"
    using evicting_state_keys by (simp add: map_of_eq_None_iff)
  have "1 \<le> next_ident evicting_state"
    unfolding evicting_state_def
    using next_ident_serve[of "snd (codegen Repr make_repr 1 init_state)"
        "requests Repr make_repr [2..<130]"]
    unfolding first_repr_state by (simp only:)
  then have i: "next_ident evicting_state \<noteq> 0" by simp
  have e: "exec_def (make_repr (placeholders 1)) = Inr (repr_template 1)"
    by (rule exec_def_make_repr) simp
  have c: "codegen Repr make_repr 1 evicting_state
      = (Inr \<lparr>fn_code = repr_template 1, fn_ident = next_ident evicting_state\<rparr>,
         evicting_state\<lparr>caches := (caches evicting_state)(Repr :=
              (1, \<lparr>fn_code = repr_template 1, fn_ident = next_ident evicting_state\<rparr>)
              # (if lru_maxsize \<le> length (caches evicting_state Repr)
                 then butlast (caches evicting_state Repr) else caches evicting_state Repr)),
            execs := Suc (execs evicting_state),
            next_ident := Suc (next_ident evicting_state)\<rparr>)"
    unfolding codegen_def n e by (simp add: Let_def)
  show ?thesis
    unfolding c first_repr_request using i by simp
qed

lemma second_repr_request:
  "\<exists>st1. codegen Repr make_repr 2 init_state = (Inr \<lparr>fn_code = repr_template 2, fn_ident = 0\<rparr>, st1)"
  by (simp add: codegen_def init_state_def exec_def_make_repr lru_maxsize_def Let_def)

theorem template_cached_while_recent_witness:
  "card (others Repr 2 (requests Repr make_repr [1] @ requests Init make_init [2])) < lru_maxsize
   \<and> fst (codegen Repr make_repr 2
        (serve (requests Repr make_repr [1] @ requests Init make_init [2])
           (snd (codegen Repr make_repr 2 init_state))))
     = Inr \<lparr>fn_code = repr_template 2, fn_ident = 0\<rparr>"
proof -
  obtain st1 where c: "codegen Repr make_repr 2 init_state
      = (Inr \<lparr>fn_code = repr_template 2, fn_ident = 0\<rparr>, st1)"
    using second_repr_request by blast
  have "others Repr 2 (requests Repr make_repr [1] @ requests Init make_init [2]) = {1}"
    by (auto simp: others_def requests_def)
  then have k: "card (others Repr 2 (requests Repr make_repr [1] @ requests Init make_init [2])) < lru_maxsize"
    by (simp add: lru_maxsize_def)
  show ?thesis
    using template_cached_while_recent[OF c k] k by (simp add: c)
qed

end
